theory Spec2Isabelle
  imports Main
begin

section \<open>Python values and exceptions\<close>

text \<open>
  The Spanish validators of \<^verbatim>\<open>localflavor/es\<close> work on text. A Python string is a HOL
  \<open>string\<close> here, a list of 8-bit characters, and the inputs of the model are ASCII
  text: on it \<^verbatim>\<open>\d\<close> matches exactly \<open>0\<close> to \<open>9\<close> and \<^verbatim>\<open>upper()\<close> changes exactly the
  letters \<open>a\<close> to \<open>z\<close>. Characters beyond ASCII, where Python follows the Unicode
  tables, are outside the model. Python integers are unbounded and are modelled by
  \<open>int\<close>.

  Every exception of the source is a value. \<open>ValidationError\<close> carries the key of the
  message it was built from (the keys of \<^verbatim>\<open>error_messages\<close> and
  \<^verbatim>\<open>default_error_messages\<close>, plus Django's own \<^verbatim>\<open>required\<close>); the other
  constructors are the built-in exceptions the operations used here can raise.
\<close>

datatype message =
  Invalid | Invalid_only_nif | Invalid_nif | Invalid_nie | Invalid_cif | Checksum | Required

datatype error = ValidationError message | IndexError | ValueError | AttributeError

text \<open>A value that is a string or an integer, for the one variable of the source
  (\<^verbatim>\<open>letter2\<close> in the CIF branch) that holds either.\<close>

datatype pyval = PyStr string | PyInt int

definition isdigit :: "char \<Rightarrow> bool" where
  "isdigit c = (c \<in> set ''0123456789'')"

definition digit_value :: "char \<Rightarrow> int" where
  "digit_value c = of_char c - 48"

definition decimal :: "string \<Rightarrow> int" where
  "decimal s = foldl (\<lambda>a c. 10 * a + digit_value c) 0 s"

text \<open>
  \<^verbatim>\<open>int(s)\<close> on a string. The validators only ever pass it a run of decimal digits
  (a group matched by \<^verbatim>\<open>\d+\<close>, one character of such a group, or a digit put in front of
  one). On a run of at most \<open>int_max_str_digits\<close> digits it is the decimal value. CPython
  (3.11, and the security releases of 3.7 to 3.10) refuses a longer run with
  \<open>ValueError\<close>: the limit counts every digit character, leading zeros included, and
  its default is 4300. Every other string is reported as \<open>ValueError\<close> too, which is
  what Python does for the empty string and for letters.
\<close>

definition int_max_str_digits :: nat where
  "int_max_str_digits = 4300"

definition py_int :: "string \<Rightarrow> error + int" where
  "py_int s =
     (if s \<noteq> [] \<and> list_all isdigit s \<and> length s \<le> int_max_str_digits then Inr (decimal s)
      else Inl ValueError)"

fun str_nat :: "nat \<Rightarrow> string" where
  "str_nat n =
     (if n < 10 then [''0123456789'' ! n]
      else str_nat (n div 10) @ [''0123456789'' ! (n mod 10)])"

declare str_nat.simps [simp del]

text \<open>\<^verbatim>\<open>str(n)\<close> of an integer. The source applies it to the double of a digit and to a
  number from 1 to 11 only, far below the digit limit of the conversion.\<close>

definition py_str :: "int \<Rightarrow> string" where
  "py_str n = (if n < 0 then CHR ''-'' # str_nat (nat (- n)) else str_nat (nat n))"

text \<open>\<^verbatim>\<open>s[i]\<close>: a negative index counts from the end, an index out of range raises.\<close>

definition py_getitem :: "'a list \<Rightarrow> int \<Rightarrow> error + 'a" where
  "py_getitem xs i =
     (if 0 \<le> i \<and> i < int (length xs) then Inr (xs ! nat i)
      else if - int (length xs) \<le> i \<and> i < 0 then Inr (xs ! nat (int (length xs) + i))
      else Inl IndexError)"

text \<open>\<^verbatim>\<open>sub in s\<close> on strings: \<open>sub\<close> occurs in \<open>s\<close> as a contiguous piece. The empty
  string occurs in every string.\<close>

fun py_in :: "string \<Rightarrow> string \<Rightarrow> bool" where
  "py_in sub [] = (sub = [])"
| "py_in sub (c # cs) = (take (length sub) (c # cs) = sub \<or> py_in sub cs)"

text \<open>
  \<^verbatim>\<open>s.replace(old, new)\<close>: the occurrences of \<open>old\<close> are replaced from left to right
  without overlap. The counter of \<open>replace_from\<close> is the number of characters still to
  skip after an occurrence was found. With an empty \<open>old\<close> Python puts \<open>new\<close> before
  every character and at the end.
\<close>

fun replace_from :: "string \<Rightarrow> string \<Rightarrow> nat \<Rightarrow> string \<Rightarrow> string" where
  "replace_from old new k [] = []"
| "replace_from old new (Suc k) (c # cs) = replace_from old new k cs"
| "replace_from old new 0 (c # cs) =
     (if take (length old) (c # cs) = old then new @ replace_from old new (length old - 1) cs
      else c # replace_from old new 0 cs)"

definition py_replace :: "string \<Rightarrow> string \<Rightarrow> string \<Rightarrow> string" where
  "py_replace old new s =
     (if old = [] then concat (map (\<lambda>c. new @ [c]) s) @ new else replace_from old new 0 s)"

text \<open>
  A list comprehension \<^verbatim>\<open>[f(x) for x in xs]\<close> whose element expression can raise: the
  elements are computed from left to right and the first exception ends the evaluation.
\<close>

fun comprehension :: "('a \<Rightarrow> error + 'b) \<Rightarrow> 'a list \<Rightarrow> error + 'b list" where
  "comprehension f [] = Inr []"
| "comprehension f (x # xs) =
     (case f x of
        Inl e \<Rightarrow> Inl e
      | Inr y \<Rightarrow> (case comprehension f xs of Inl e \<Rightarrow> Inl e | Inr ys \<Rightarrow> Inr (y # ys)))"

section \<open>The CIF checksum\<close>

text \<open>
  \<^verbatim>\<open>cif_get_checksum(number)\<close> of \<^verbatim>\<open>validators.py\<close>. \<open>s1\<close> adds the digits at the
  odd positions, \<open>s2\<close> adds, for each digit at an even position, the digits of the
  decimal numeral of its double.
\<close>

definition digits_of_double :: "char \<Rightarrow> error + int" where
  "digits_of_double digit =
     (case py_int [digit] of
        Inl e \<Rightarrow> Inl e
      | Inr d \<Rightarrow>
          (case comprehension (\<lambda>unit. py_int [unit]) (py_str (d * 2)) of
             Inl e \<Rightarrow> Inl e
           | Inr us \<Rightarrow> Inr (sum_list us)))"

definition cif_get_checksum :: "string \<Rightarrow> error + int" where
  "cif_get_checksum number =
     (case comprehension (\<lambda>(pos, digit). py_int [digit])
             (filter (\<lambda>(pos, digit). int pos mod 2 \<noteq> 0) (enumerate 0 number)) of
        Inl e \<Rightarrow> Inl e
      | Inr l1 \<Rightarrow>
          (case comprehension (\<lambda>(pos, digit). digits_of_double digit)
                  (filter (\<lambda>(pos, digit). \<not> int pos mod 2 \<noteq> 0) (enumerate 0 number)) of
             Inl e \<Rightarrow> Inl e
           | Inr l2 \<Rightarrow>
               (let s1 = sum_list l1; s2 = sum_list l2
                in Inr ((10 - ((s1 + s2) mod 10)) mod 10))))"

text \<open>
  The checksum in the words of the specification: positions count from 0 at the left,
  \<open>odd_sum\<close> adds the digits at the odd positions as they are, \<open>even_sum\<close> adds the
  digit sum of twice each digit at an even position.
\<close>

fun digit_sum :: "nat \<Rightarrow> nat" where
  "digit_sum n = (if n < 10 then n else n mod 10 + digit_sum (n div 10))"

declare digit_sum.simps [simp del]

definition odd_sum :: "string \<Rightarrow> int" where
  "odd_sum number =
     (\<Sum>i \<leftarrow> filter odd [0..<length number]. digit_value (number ! i))"

definition even_sum :: "string \<Rightarrow> int" where
  "even_sum number =
     (\<Sum>i \<leftarrow> filter even [0..<length number].
        int (digit_sum (2 * nat (digit_value (number ! i)))))"

definition spec_cif_checksum :: "string \<Rightarrow> int" where
  "spec_cif_checksum number = (10 - (odd_sum number + even_sum number) mod 10) mod 10"

section \<open>The regular expressions\<close>

text \<open>
  The identity pattern of \<^verbatim>\<open>__call__\<close> is
  \<^verbatim>\<open>^([P]?)(\d+)([S]?)$\<close>, where \<open>P\<close> is the text of \<^verbatim>\<open>cif_types + nie_types\<close> and
  \<open>S\<close> the text of \<^verbatim>\<open>nif_control + cif_control\<close>, both made of capital letters only.
  \<^verbatim>\<open>re.match\<close> is modelled piece by piece:
  \<^item> \<open>opt_class\<close> is an optional character of a class. It is greedy: the character is
    taken when it belongs to the class. Giving it back could not help the match, since
    in both patterns the next piece must start with a digit or be the end.
  \<^item> \<open>digits1\<close> is \<^verbatim>\<open>\d+\<close>: the longest run of digits, at least one. A shorter run would
    leave a digit for the next piece, which no class and no end accepts.
  \<^item> \<open>digitsN n\<close> is \<^verbatim>\<open>\d{n}\<close>.
  \<^item> \<open>at_end\<close> is \<^verbatim>\<open>$\<close> (without \<^verbatim>\<open>re.MULTILINE\<close>): the end of the string, or the
    position just before a line feed that ends the string.
  The result holds the groups of the match, \<open>None\<close> is Python's \<^verbatim>\<open>None\<close>.
\<close>

definition opt_class :: "string \<Rightarrow> string \<Rightarrow> string \<times> string" where
  "opt_class cls s =
     (case s of [] \<Rightarrow> ([], []) | c # cs \<Rightarrow> if c \<in> set cls then ([c], cs) else ([], s))"

definition digits1 :: "string \<Rightarrow> (string \<times> string) option" where
  "digits1 s =
     (if takeWhile isdigit s = [] then None
      else Some (takeWhile isdigit s, dropWhile isdigit s))"

definition digitsN :: "nat \<Rightarrow> string \<Rightarrow> (string \<times> string) option" where
  "digitsN n s =
     (if n \<le> length s \<and> list_all isdigit (take n s) then Some (take n s, drop n s)
      else None)"

definition at_end :: "string \<Rightarrow> bool" where
  "at_end s = (s = [] \<or> s = [CHR 0x0A])"

definition re_match_identity :: "string \<Rightarrow> string \<Rightarrow> string \<Rightarrow> (string \<times> string \<times> string) option"
  where
  "re_match_identity prefixes suffixes value =
     (case opt_class prefixes value of
        (letter1, r1) \<Rightarrow>
          (case digits1 r1 of
             None \<Rightarrow> None
           | Some (number, r2) \<Rightarrow>
               (case opt_class suffixes r2 of
                  (letter2, r3) \<Rightarrow>
                    if at_end r3 then Some (letter1, number, letter2) else None)))"

text \<open>The bank account pattern \<^verbatim>\<open>^(\d{4})[ -]?(\d{4})[ -]?(\d{2})[ -]?(\d{10})$\<close>.\<close>

definition re_match_ccc :: "string \<Rightarrow> (string \<times> string \<times> string \<times> string) option" where
  "re_match_ccc value =
     (case digitsN 4 value of
        None \<Rightarrow> None
      | Some (entity, r1) \<Rightarrow>
     (case digitsN 4 (snd (opt_class '' -'' r1)) of
        None \<Rightarrow> None
      | Some (office, r2) \<Rightarrow>
     (case digitsN 2 (snd (opt_class '' -'' r2)) of
        None \<Rightarrow> None
      | Some (checksum, r3) \<Rightarrow>
     (case digitsN 10 (snd (opt_class '' -'' r3)) of
        None \<Rightarrow> None
      | Some (account, r4) \<Rightarrow>
          if at_end r4 then Some (entity, office, checksum, account) else None))))"

section \<open>The identity number validator\<close>

text \<open>The object built by \<^verbatim>\<open>ESIdentityCardNumberValidator.__init__\<close>.\<close>

record ESIdentityCardNumberValidator =
  only_nif :: bool
  nif_control :: string
  cif_control :: string
  cif_types :: string
  nie_types :: string

definition ESIdentityCardNumberValidator_init :: "bool \<Rightarrow> ESIdentityCardNumberValidator" where
  "ESIdentityCardNumberValidator_init only_nif' =
     \<lparr>only_nif = only_nif',
      nif_control = ''TRWAGMYFPDXBNJZSQVHLCKE'',
      cif_control = ''JABCDEFGHI'',
      cif_types = ''ABCDEFGHJKLMNPQS'',
      nie_types = ''XYZ''\<rparr>"

text \<open>The local \<^verbatim>\<open>nif_get_checksum = lambda d: self.nif_control[int(d) % 23]\<close>.\<close>

definition nif_get_checksum :: "ESIdentityCardNumberValidator \<Rightarrow> string \<Rightarrow> error + char" where
  "nif_get_checksum self d =
     (case py_int d of
        Inl e \<Rightarrow> Inl e
      | Inr n \<Rightarrow> py_getitem (nif_control self) (n mod 23))"

text \<open>
  \<^verbatim>\<open>ESIdentityCardNumberValidator.__call__\<close>. Returning normally is \<open>Inr ()\<close>. A group
  is true in a condition when it is not empty. In the CIF branch \<^verbatim>\<open>letter2\<close> is either
  the matched letter, a string, or the integer of the last digit; the membership test
  compares it with the integer \<^verbatim>\<open>checksum\<close> and with the one-letter string
  \<^verbatim>\<open>self.cif_control[checksum]\<close>, and a string never equals an integer.
\<close>

definition ESIdentityCardNumberValidator_call ::
  "ESIdentityCardNumberValidator \<Rightarrow> string \<Rightarrow> error + unit" where
  "ESIdentityCardNumberValidator_call self value =
     (case re_match_identity (cif_types self @ nie_types self)
             (nif_control self @ cif_control self) value of
        None \<Rightarrow> Inl (ValidationError Invalid)
      | Some (letter1, number, letter2) \<Rightarrow>
          if letter1 = [] \<and> letter2 \<noteq> [] then
            (case nif_get_checksum self number of
               Inl e \<Rightarrow> Inl e
             | Inr c \<Rightarrow> if letter2 = [c] then Inr () else Inl (ValidationError Invalid_nif))
          else if py_in letter1 (nie_types self) \<and> letter2 \<noteq> [] then
            (let l2n = py_replace ''Z'' ''2'' (py_replace ''Y'' ''1'' (py_replace ''X'' ''0'' letter1));
                 number2b_checked = l2n @ number
             in case nif_get_checksum self number2b_checked of
                  Inl e \<Rightarrow> Inl e
                | Inr c \<Rightarrow> if letter2 = [c] then Inr () else Inl (ValidationError Invalid_nie))
          else if \<not> only_nif self \<and> py_in letter1 (cif_types self) \<and> length number \<in> set [7, 8] then
            (case (if letter2 = [] then
                     (case py_getitem number (- 1) of
                        Inl e \<Rightarrow> Inl e
                      | Inr last_digit \<Rightarrow>
                          (case py_int [last_digit] of
                             Inl e \<Rightarrow> Inl e
                           | Inr n \<Rightarrow> Inr (butlast number, PyInt n)))
                   else Inr (number, PyStr letter2)) of
               Inl e \<Rightarrow> Inl e
             | Inr (number', letter2') \<Rightarrow>
                 (case cif_get_checksum number' of
                    Inl e \<Rightarrow> Inl e
                  | Inr checksum \<Rightarrow>
                      (case py_getitem (cif_control self) checksum of
                         Inl e \<Rightarrow> Inl e
                       | Inr c \<Rightarrow>
                           if letter2' \<in> set [PyInt checksum, PyStr [c]] then Inr ()
                           else Inl (ValidationError Invalid_cif))))
          else Inl (ValidationError Invalid))"

section \<open>The form fields\<close>

text \<open>
  Both fields end in \<^verbatim>\<open>clean\<close> of a Django base class, which is not part of the
  repository. \<open>Field_clean\<close> is what \<^verbatim>\<open>django.forms.Field.clean\<close> does with a string and
  one validator, with \<^verbatim>\<open>max_length\<close> and \<^verbatim>\<open>min_length\<close> left at \<^verbatim>\<open>None\<close>: an empty
  value is refused when the field is required and returned without validation
  otherwise; any other value is given to the validator and returned as it is.
\<close>

definition Field_clean :: "bool \<Rightarrow> (string \<Rightarrow> error + unit) \<Rightarrow> string \<Rightarrow> error + string" where
  "Field_clean required validator value =
     (if value = [] then (if required then Inl (ValidationError Required) else Inr value)
      else (case validator value of Inl e \<Rightarrow> Inl e | Inr u \<Rightarrow> Inr value))"

text \<open>\<^verbatim>\<open>upper()\<close> on the letters \<open>a\<close> to \<open>z\<close>; every other character of the model's
  alphabet is kept.\<close>

definition upper_char :: "char \<Rightarrow> char" where
  "upper_char c =
     (case map_of (zip ''abcdefghijklmnopqrstuvwxyz'' ''ABCDEFGHIJKLMNOPQRSTUVWXYZ'') c of
        None \<Rightarrow> c
      | Some u \<Rightarrow> u)"

definition py_upper :: "string \<Rightarrow> string" where
  "py_upper s = map upper_char s"

text \<open>The expression \<^verbatim>\<open>value.upper().replace(' ', '').replace('-', '')\<close> of
  \<^verbatim>\<open>ESIdentityCardNumberField.clean\<close>.\<close>

definition normalize_value :: "string \<Rightarrow> string" where
  "normalize_value value = py_replace ''-'' [] (py_replace '' '' [] (py_upper value))"

text \<open>
  \<^verbatim>\<open>ESIdentityCardNumberField\<close>: \<^verbatim>\<open>__init__\<close> stores \<^verbatim>\<open>only_nif\<close> in the field and
  builds the validator as \<^verbatim>\<open>ESIdentityCardNumberValidator()\<close>, that is with the default
  \<^verbatim>\<open>only_nif=False\<close>. The alphabets it also stores are never read and are left out.
\<close>

record ESIdentityCardNumberField =
  field_only_nif :: bool
  field_required :: bool
  field_validator :: "string \<Rightarrow> error + unit"

definition ESIdentityCardNumberField_init :: "bool \<Rightarrow> bool \<Rightarrow> ESIdentityCardNumberField" where
  "ESIdentityCardNumberField_init only_nif' required =
     \<lparr>field_only_nif = only_nif',
      field_required = required,
      field_validator =
        ESIdentityCardNumberValidator_call (ESIdentityCardNumberValidator_init False)\<rparr>"

definition ESIdentityCardNumberField_clean :: "ESIdentityCardNumberField \<Rightarrow> string \<Rightarrow> error + string"
  where
  "ESIdentityCardNumberField_clean self value =
     Field_clean (field_required self) (field_validator self)
       (if value \<noteq> [] then normalize_value value else value)"

text \<open>
  \<^verbatim>\<open>ESCCCField\<close> is a \<^verbatim>\<open>RegexField\<close>: its validator searches the pattern in the value
  and raises \<^verbatim>\<open>invalid\<close> when there is no match. \<^verbatim>\<open>clean\<close> then matches the value again;
  \<^verbatim>\<open>m.groups()\<close> on \<^verbatim>\<open>None\<close> would be an \<open>AttributeError\<close>.
\<close>

definition control_str :: "int list" where
  "control_str = [1, 2, 4, 8, 5, 10, 9, 7, 3, 6]"

definition get_checksum :: "string \<Rightarrow> error + string" where
  "get_checksum d =
     (case comprehension
             (\<lambda>(digit, control).
                case py_int [digit] of Inl e \<Rightarrow> Inl e | Inr n \<Rightarrow> Inr (n * control))
             (zip d control_str) of
        Inl e \<Rightarrow> Inl e
      | Inr products \<Rightarrow>
          Inr (py_replace ''11'' ''0''
                (py_replace ''10'' ''1'' (py_str (11 - sum_list products mod 11)))))"

definition regex_validator :: "string \<Rightarrow> error + unit" where
  "regex_validator value =
     (if re_match_ccc value = None then Inl (ValidationError Invalid) else Inr ())"

definition ESCCCField_clean :: "bool \<Rightarrow> string \<Rightarrow> error + string" where
  "ESCCCField_clean required value =
     (case Field_clean required regex_validator value of
        Inl e \<Rightarrow> Inl e
      | Inr cleaned \<Rightarrow>
          if value = [] then Inr []
          else
            (case re_match_ccc value of
               None \<Rightarrow> Inl AttributeError
             | Some (entity, office, checksum, account) \<Rightarrow>
                 (case get_checksum (''00'' @ entity @ office) of
                    Inl e \<Rightarrow> Inl e
                  | Inr c1 \<Rightarrow>
                      (case get_checksum account of
                         Inl e \<Rightarrow> Inl e
                       | Inr c2 \<Rightarrow>
                           if c1 @ c2 = checksum then Inr value
                           else Inl (ValidationError Checksum)))))"

section \<open>Notions of the specification used in the statements\<close>

text \<open>The leading digit that stands for a NIE prefix letter: \<open>X\<close> is 0, \<open>Y\<close> is 1, \<open>Z\<close> is 2.\<close>

definition nie_prefix_digit :: "char \<Rightarrow> char" where
  "nie_prefix_digit p =
     (if p = CHR ''X'' then CHR ''0'' else if p = CHR ''Y'' then CHR ''1'' else CHR ''2'')"

text \<open>The character of a one-digit number.\<close>

definition digit_char :: "int \<Rightarrow> char" where
  "digit_char k = ''0123456789'' ! nat k"

text \<open>The characters of a normalised identifier: digits and capital letters.\<close>

definition plain_chars :: "char set" where
  "plain_chars = set ''0123456789ABCDEFGHIJKLMNOPQRSTUVWXYZ''"

text \<open>The weighted digit sum of a 10-digit segment of a bank account code, and the
  check digit the specification derives from it.\<close>

definition weighted_sum :: "string \<Rightarrow> int" where
  "weighted_sum d =
     (\<Sum>i \<leftarrow> [0..<10]. digit_value (d ! i) * [1, 2, 4, 8, 5, 10, 9, 7, 3, 6] ! i)"

definition spec_ccc_checksum :: "string \<Rightarrow> int" where
  "spec_ccc_checksum d =
     (let r = 11 - weighted_sum d mod 11 in if r = 10 then 1 else if r = 11 then 0 else r)"

section \<open>Properties of the Python primitives\<close>

lemma comprehension_Inr:
  "(\<And>x. x \<in> set xs \<Longrightarrow> f x = Inr (g x)) \<Longrightarrow> comprehension f xs = Inr (map g xs)"
  by (induction xs) auto

lemma isdigit_cases:
  "isdigit c \<longleftrightarrow> c = CHR ''0'' \<or> c = CHR ''1'' \<or> c = CHR ''2'' \<or> c = CHR ''3'' \<or> c = CHR ''4''
     \<or> c = CHR ''5'' \<or> c = CHR ''6'' \<or> c = CHR ''7'' \<or> c = CHR ''8'' \<or> c = CHR ''9''"
  by (auto simp: isdigit_def)

lemma py_int_digit: "isdigit c \<Longrightarrow> py_int [c] = Inr (digit_value c)"
  by (simp add: py_int_def decimal_def int_max_str_digits_def)

lemma digit_value_range: "isdigit c \<Longrightarrow> 0 \<le> digit_value c \<and> digit_value c \<le> 9"
  by (auto simp: isdigit_def digit_value_def)

lemma digits_of_double_digit:
  "isdigit c \<Longrightarrow> digits_of_double c = Inr (int (digit_sum (2 * nat (digit_value c))))"
  unfolding isdigit_cases
  by (elim disjE; simp add: digits_of_double_def py_int_def int_max_str_digits_def decimal_def py_str_def
        str_nat.simps digit_sum.simps digit_value_def isdigit_def)

lemma enumerate_nth: "enumerate 0 xs = map (\<lambda>i. (i, xs ! i)) [0..<length xs]"
  by (rule nth_equalityI) (simp_all add: nth_enumerate_eq)

lemma cif_get_checksum_digits:
  "list_all isdigit number \<Longrightarrow> cif_get_checksum number = Inr (spec_cif_checksum number)"
proof -
  assume d: "list_all isdigit number"
  let ?odd = "filter (\<lambda>(pos, digit). int pos mod 2 \<noteq> 0) (enumerate 0 number)"
  let ?even = "filter (\<lambda>(pos, digit). \<not> int pos mod 2 \<noteq> 0) (enumerate 0 number)"
  define l1 where "l1 = map (\<lambda>(pos, digit). digit_value digit) ?odd"
  define l2 where "l2 = map (\<lambda>(pos, digit). int (digit_sum (2 * nat (digit_value digit)))) ?even"
  have in_d: "\<And>p. p \<in> set (enumerate 0 number) \<Longrightarrow> isdigit (snd p)"
    using d by (auto simp: in_set_enumerate_eq list_all_iff)
  have c1: "comprehension (\<lambda>(pos, digit). py_int [digit]) ?odd = Inr l1"
    unfolding l1_def by (rule comprehension_Inr) (use in_d in \<open>auto simp: py_int_digit\<close>)
  have c2: "comprehension (\<lambda>(pos, digit). digits_of_double digit) ?even = Inr l2"
    unfolding l2_def by (rule comprehension_Inr) (use in_d in \<open>auto simp: digits_of_double_digit\<close>)
  have par: "\<And>x::nat. (int x mod 2 = 1) = odd x" "\<And>x::nat. (int x mod 2 = 0) = even x"
    by presburger+
  have s1: "sum_list l1 = odd_sum number"
    by (simp add: l1_def odd_sum_def enumerate_nth filter_map comp_def par)
  have s2: "sum_list l2 = even_sum number"
    by (simp add: l2_def even_sum_def enumerate_nth filter_map comp_def par)
  show ?thesis
    unfolding cif_get_checksum_def c1 c2 by (simp add: s1 s2 spec_cif_checksum_def)
qed


lemma opt_class_in: "c \<in> set cls \<Longrightarrow> opt_class cls (c # cs) = ([c], cs)"
  by (simp add: opt_class_def)

lemma opt_class_out: "s = [] \<or> hd s \<notin> set cls \<Longrightarrow> opt_class cls s = ([], s)"
  by (cases s) (auto simp: opt_class_def)

lemma digits1_run:
  assumes "n \<noteq> []" "list_all isdigit n" "rest = [] \<or> \<not> isdigit (hd rest)"
  shows "digits1 (n @ rest) = Some (n, rest)"
proof -
  have all: "\<And>x. x \<in> set n \<Longrightarrow> isdigit x"
    using assms(2) by (simp add: list_all_iff)
  have stop: "takeWhile isdigit rest = [] \<and> dropWhile isdigit rest = rest"
    using assms(3) by (cases rest) auto
  have "takeWhile isdigit (n @ rest) = n" "dropWhile isdigit (n @ rest) = rest"
    using all stop by (simp_all add: takeWhile_append2 dropWhile_append2)
  then show ?thesis
    using assms(1) by (simp add: digits1_def)
qed

lemma re_match_identity_shape:
  assumes P: "\<forall>c\<in>set P. \<not> isdigit c"
    and S: "\<forall>c\<in>set S. \<not> isdigit c"
    and l1: "l1 = [] \<or> (\<exists>c\<in>set P. l1 = [c])"
    and n: "n \<noteq> []" "list_all isdigit n"
    and l2: "l2 = [] \<or> (\<exists>c\<in>set S. l2 = [c])"
    and e: "e = [] \<or> (e = [CHR 0x0A] \<and> CHR 0x0A \<notin> set S)"
  shows "re_match_identity P S (l1 @ n @ l2 @ e) = Some (l1, n, l2)"
proof -
  obtain d ds where nd: "n = d # ds" "isdigit d"
    using n by (cases n) auto
  have nl: "\<not> isdigit (CHR 0x0A)"
    by (simp add: isdigit_def)
  have a: "opt_class P (l1 @ n @ l2 @ e) = (l1, n @ l2 @ e)"
    using l1 P nd by (auto simp: opt_class_in opt_class_out)
  have "l2 @ e = [] \<or> \<not> isdigit (hd (l2 @ e))"
    using l2 e S nl by auto
  then have b: "digits1 (n @ l2 @ e) = Some (n, l2 @ e)"
    using n by (intro digits1_run) auto
  have c: "opt_class S (l2 @ e) = (l2, e)"
    using l2 e by (auto simp: opt_class_in opt_class_out)
  have d: "at_end e"
    using e by (auto simp: at_end_def)
  show ?thesis
    by (simp add: re_match_identity_def a b c d)
qed

lemma prefix_class_letters: "\<forall>c\<in>set (''ABCDEFGHJKLMNPQS'' @ ''XYZ''). \<not> isdigit c"
  by (simp add: isdigit_def)

lemma suffix_class_letters:
  "\<forall>c\<in>set (''TRWAGMYFPDXBNJZSQVHLCKE'' @ ''JABCDEFGHI''). \<not> isdigit c"
  by (simp add: isdigit_def)

lemma suffix_class_no_newline: "CHR 0x0A \<notin> set (''TRWAGMYFPDXBNJZSQVHLCKE'' @ ''JABCDEFGHI'')"
  by simp

lemma digit_value_nonneg: "isdigit c \<Longrightarrow> 0 \<le> digit_value c"
  by (auto simp: isdigit_def digit_value_def)

lemma foldl_decimal_nonneg:
  "0 \<le> a \<Longrightarrow> list_all isdigit s \<Longrightarrow> 0 \<le> foldl (\<lambda>a c. 10 * a + digit_value c) a s"
  by (induction s arbitrary: a) (auto simp: digit_value_nonneg)

lemma decimal_nonneg: "list_all isdigit s \<Longrightarrow> 0 \<le> decimal s"
  by (simp add: decimal_def foldl_decimal_nonneg)

lemma py_getitem_in_range: "0 \<le> i \<Longrightarrow> i < int (length xs) \<Longrightarrow> py_getitem xs i = Inr (xs ! nat i)"
  by (simp add: py_getitem_def)

lemma py_int_digits:
  "d \<noteq> [] \<Longrightarrow> list_all isdigit d \<Longrightarrow> length d \<le> 4300 \<Longrightarrow> py_int d = Inr (decimal d)"
  by (simp add: py_int_def int_max_str_digits_def)

lemma py_int_over_limit: "4300 < length d \<Longrightarrow> py_int d = Inl ValueError"
  by (simp add: py_int_def int_max_str_digits_def)

lemma nif_get_checksum_over_limit:
  "4300 < length d \<Longrightarrow> nif_get_checksum self d = Inl ValueError"
  by (simp add: nif_get_checksum_def py_int_over_limit)

lemma nif_get_checksum_digits:
  assumes "d \<noteq> []" "list_all isdigit d" "length d \<le> 4300"
  shows "nif_get_checksum (ESIdentityCardNumberValidator_init b) d
         = Inr (''TRWAGMYFPDXBNJZSQVHLCKE'' ! nat (decimal d mod 23))"
proof -
  have "py_int d = Inr (decimal d)"
    using assms by (rule py_int_digits)
  moreover have "py_getitem ''TRWAGMYFPDXBNJZSQVHLCKE'' (decimal d mod 23)
      = Inr (''TRWAGMYFPDXBNJZSQVHLCKE'' ! nat (decimal d mod 23))"
    by (rule py_getitem_in_range) simp_all
  ultimately show ?thesis
    by (simp add: nif_get_checksum_def ESIdentityCardNumberValidator_init_def)
qed


lemma replace_from_single: "replace_from [c] [] 0 s = filter (\<lambda>x. x \<noteq> c) s"
  by (induction s) auto

lemma py_replace_single: "py_replace [c] [] s = filter (\<lambda>x. x \<noteq> c) s"
  by (simp add: py_replace_def replace_from_single)

lemma normalize_filter:
  "normalize_value s = filter (\<lambda>x. x \<noteq> CHR '' '' \<and> x \<noteq> CHR ''-'') (map upper_char s)"
  by (simp add: normalize_value_def py_replace_single py_upper_def)

lemma normalize_append: "normalize_value (xs @ ys) = normalize_value xs @ normalize_value ys"
  by (simp add: normalize_filter)

lemma upper_char_not_lower: "upper_char c \<notin> set ''abcdefghijklmnopqrstuvwxyz''"
  by (simp add: upper_char_def)

lemma upper_char_fixed: "c \<notin> set ''abcdefghijklmnopqrstuvwxyz'' \<Longrightarrow> upper_char c = c"
  by (simp add: upper_char_def)

lemma upper_char_idem: "upper_char (upper_char c) = upper_char c"
  by (rule upper_char_fixed) (rule upper_char_not_lower)

lemma normalize_idem: "normalize_value (normalize_value s) = normalize_value s"
  by (induction s) (auto simp: normalize_filter upper_char_idem)

lemma upper_char_separators: "upper_char (CHR '' '') = CHR '' ''" "upper_char (CHR ''-'') = CHR ''-''"
  by (simp_all add: upper_char_def)

lemma normalize_separators:
  "set s \<subseteq> {CHR '' '', CHR ''-''} \<Longrightarrow> normalize_value s = []"
  by (induction s) (auto simp: normalize_filter upper_char_separators)

lemma upper_char_digits_capitals:
  assumes "c \<in> set ''0123456789ABCDEFGHIJKLMNOPQRSTUVWXYZ''"
  shows "upper_char c = c \<and> c \<noteq> CHR ''-'' \<and> c \<noteq> CHR '' ''"
proof -
  have "c \<notin> set ''abcdefghijklmnopqrstuvwxyz'' \<and> c \<noteq> CHR ''-'' \<and> c \<noteq> CHR '' ''"
    using assms by auto
  then show ?thesis
    by (simp only: upper_char_fixed simp_thms)
qed

lemma normalize_fixed:
  "set s \<subseteq> set ''0123456789ABCDEFGHIJKLMNOPQRSTUVWXYZ'' \<Longrightarrow> normalize_value s = s"
proof (induction s)
  case Nil
  then show ?case by (simp add: normalize_filter)
next
  case (Cons c s)
  then have c: "c \<in> set ''0123456789ABCDEFGHIJKLMNOPQRSTUVWXYZ''" and s: "normalize_value s = s"
    by auto
  show ?case
    using s upper_char_digits_capitals[OF c] by (simp add: normalize_filter)
qed

lemma py_in_single: "py_in [c] s = (c \<in> set s)"
  by (induction s) auto

lemma nie_replace:
  "p \<in> set ''XYZ'' \<Longrightarrow>
   py_replace ''Z'' ''2'' (py_replace ''Y'' ''1'' (py_replace ''X'' ''0'' [p])) = [nie_prefix_digit p]"
  by (auto simp: py_replace_def nie_prefix_digit_def)

lemma nie_prefix_digit_isdigit: "isdigit (nie_prefix_digit p)"
  by (simp add: nie_prefix_digit_def isdigit_def)

lemma spec_cif_checksum_range: "0 \<le> spec_cif_checksum s \<and> spec_cif_checksum s \<le> 9"
  by (simp add: spec_cif_checksum_def)

lemma digit_char_value: "isdigit c \<Longrightarrow> digit_char (digit_value c) = c"
  by (auto simp: isdigit_def digit_char_def digit_value_def)

lemma digit_value_char: "0 \<le> k \<Longrightarrow> k \<le> 9 \<Longrightarrow> digit_value (digit_char k) = k"
proof -
  assume "0 \<le> k" "k \<le> 9"
  then have "k = 0 \<or> k = 1 \<or> k = 2 \<or> k = 3 \<or> k = 4 \<or> k = 5 \<or> k = 6 \<or> k = 7 \<or> k = 8 \<or> k = 9"
    by arith
  then show ?thesis
    by (auto simp: digit_char_def digit_value_def)
qed

lemma isdigit_digit_char: "0 \<le> k \<Longrightarrow> k \<le> 9 \<Longrightarrow> isdigit (digit_char k)"
proof -
  assume "0 \<le> k" "k \<le> 9"
  then have "k = 0 \<or> k = 1 \<or> k = 2 \<or> k = 3 \<or> k = 4 \<or> k = 5 \<or> k = 6 \<or> k = 7 \<or> k = 8 \<or> k = 9"
    by arith
  then show ?thesis
    by (auto simp: digit_char_def isdigit_def)
qed

lemma cif_control_letter: "0 \<le> k \<Longrightarrow> k \<le> 9 \<Longrightarrow> \<not> isdigit (''JABCDEFGHI'' ! nat k)"
proof -
  assume "0 \<le> k" "k \<le> 9"
  then have "k = 0 \<or> k = 1 \<or> k = 2 \<or> k = 3 \<or> k = 4 \<or> k = 5 \<or> k = 6 \<or> k = 7 \<or> k = 8 \<or> k = 9"
    by arith
  then show ?thesis
    by (auto simp: isdigit_def)
qed

lemma normalize_plain: "set s \<subseteq> plain_chars \<Longrightarrow> normalize_value s = s"
  unfolding plain_chars_def by (rule normalize_fixed)

lemma digits_subset_plain: "set ''0123456789'' \<subseteq> plain_chars"
  by (simp add: plain_chars_def)

lemma suffix_subset_plain:
  "set (''TRWAGMYFPDXBNJZSQVHLCKE'' @ ''JABCDEFGHI'') \<subseteq> plain_chars"
  by (simp add: plain_chars_def)

lemma prefix_subset_plain:
  "set (''ABCDEFGHJKLMNPQS'' @ ''XYZ'') \<subseteq> plain_chars"
  by (simp add: plain_chars_def)

lemma suffix_plain: "c \<in> set (''TRWAGMYFPDXBNJZSQVHLCKE'' @ ''JABCDEFGHI'') \<Longrightarrow> c \<in> plain_chars"
  by (rule subsetD[OF suffix_subset_plain])

lemma prefix_plain: "c \<in> set (''ABCDEFGHJKLMNPQS'' @ ''XYZ'') \<Longrightarrow> c \<in> plain_chars"
  by (rule subsetD[OF prefix_subset_plain])

lemma isdigit_plain: "isdigit c \<Longrightarrow> c \<in> plain_chars"
  unfolding isdigit_def by (rule subsetD[OF digits_subset_plain])

lemma digits_plain: "list_all isdigit s \<Longrightarrow> set s \<subseteq> plain_chars"
  using isdigit_plain by (auto simp: list_all_iff)

lemma field_clean_plain:
  assumes "v \<noteq> []" "set v \<subseteq> plain_chars"
  shows "ESIdentityCardNumberField_clean (ESIdentityCardNumberField_init flag req) v =
     (case ESIdentityCardNumberValidator_call (ESIdentityCardNumberValidator_init False) v of
        Inl e \<Rightarrow> Inl e | Inr u \<Rightarrow> Inr v)"
  using assms(1) normalize_plain[OF assms(2)]
  by (simp add: ESIdentityCardNumberField_clean_def ESIdentityCardNumberField_init_def Field_clean_def)

section \<open>The branches of the validator\<close>

lemma py_getitem_last: "xs \<noteq> [] \<Longrightarrow> py_getitem xs (- 1) = Inr (last xs)"
  by (cases xs rule: rev_cases) (auto simp: py_getitem_def nth_append)

lemma cif_type_not_nie: "t \<in> set ''ABCDEFGHJKLMNPQS'' \<Longrightarrow> t \<notin> set ''XYZ''"
  by auto

lemma cif_control_getitem:
  "py_getitem ''JABCDEFGHI'' (spec_cif_checksum s) = Inr (''JABCDEFGHI'' ! nat (spec_cif_checksum s))"
  using spec_cif_checksum_range[of s] by (intro py_getitem_in_range) simp_all

lemma call_cif_branch:
  assumes m: "re_match_identity (''ABCDEFGHJKLMNPQS'' @ ''XYZ'')
                (''TRWAGMYFPDXBNJZSQVHLCKE'' @ ''JABCDEFGHI'') v = Some ([t], number, letter2)"
    and t: "t \<in> set ''ABCDEFGHJKLMNPQS''"
    and len: "length number = 7 \<or> length number = 8"
    and ds: "list_all isdigit number"
  shows "ESIdentityCardNumberValidator_call (ESIdentityCardNumberValidator_init False) v =
     (if letter2 = [] then
        (if digit_value (last number) = spec_cif_checksum (butlast number) then Inr ()
         else Inl (ValidationError Invalid_cif))
      else
        (if letter2 = [''JABCDEFGHI'' ! nat (spec_cif_checksum number)] then Inr ()
         else Inl (ValidationError Invalid_cif)))"
proof -
  have ne: "number \<noteq> []"
    using len by auto
  have nie: "\<not> py_in [t] ''XYZ''" and cif: "py_in [t] ''ABCDEFGHJKLMNPQS''"
    using t cif_type_not_nie[OF t] by (simp_all only: py_in_single simp_thms)
  have lastd: "isdigit (last number)"
    using ds ne by (simp add: list_all_iff)
  have g: "py_getitem number (- 1) = Inr (last number)"
    using ne by (rule py_getitem_last)
  have i: "py_int [last number] = Inr (digit_value (last number))"
    using lastd by (rule py_int_digit)
  have "list_all isdigit (butlast number)"
    using ds by (auto simp: list_all_iff dest: in_set_butlastD)
  then have c1: "cif_get_checksum (butlast number) = Inr (spec_cif_checksum (butlast number))"
    by (rule cif_get_checksum_digits)
  have c2: "cif_get_checksum number = Inr (spec_cif_checksum number)"
    using ds by (rule cif_get_checksum_digits)
  have l: "length number \<in> set [7, 8]"
    using len by auto
  show ?thesis
    unfolding ESIdentityCardNumberValidator_call_def
    using m nie cif l
    by (simp add: ESIdentityCardNumberValidator_init_def g i c1 c2 cif_control_getitem
          del: py_in.simps)
qed

lemma digit_check_iff:
  assumes "isdigit c" "0 \<le> k" "k \<le> 9"
  shows "(c = digit_char k \<or> c = ''JABCDEFGHI'' ! nat k) = (digit_value c = k)"
  using assms digit_char_value[of c] digit_value_char[of k] cif_control_letter[of k]
  by auto

lemma letter_check_iff:
  assumes "\<not> isdigit l" "0 \<le> k" "k \<le> 9"
  shows "(l = digit_char k \<or> l = ''JABCDEFGHI'' ! nat k) = ([l] = [''JABCDEFGHI'' ! nat k])"
  using assms isdigit_digit_char[of k] by auto

section \<open>The bank account checksum\<close>

lemma remap_checksum:
  assumes "1 \<le> r" "r \<le> 11"
  shows "py_replace ''11'' ''0'' (py_replace ''10'' ''1'' (py_str r))
         = py_str (if r = 10 then 1 else if r = 11 then 0 else r)"
proof -
  have "r = 1 \<or> r = 2 \<or> r = 3 \<or> r = 4 \<or> r = 5 \<or> r = 6 \<or> r = 7 \<or> r = 8 \<or> r = 9 \<or> r = 10 \<or> r = 11"
    using assms by arith
  then show ?thesis
    by (elim disjE) (simp_all add: py_str_def str_nat.simps py_replace_def)
qed

lemma get_checksum_segment:
  assumes len: "length d = 10" and ds: "list_all isdigit d"
  shows "get_checksum d = Inr (py_str (spec_ccc_checksum d))"
proof -
  define products where
    "products = map (\<lambda>(digit, control). digit_value digit * control) (zip d control_str)"
  have "\<And>x. x \<in> set (zip d control_str) \<Longrightarrow>
         (case x of (digit, control) \<Rightarrow>
            (case py_int [digit] of Inl e \<Rightarrow> Inl e | Inr n \<Rightarrow> Inr (n * control)))
         = Inr (case x of (digit, control) \<Rightarrow> digit_value digit * control)"
    using ds by (auto simp: list_all_iff py_int_digit dest: set_zip_leftD)
  then have c: "comprehension
             (\<lambda>(digit, control).
                case py_int [digit] of Inl e \<Rightarrow> Inl e | Inr n \<Rightarrow> Inr (n * control))
             (zip d control_str) = Inr products"
    unfolding products_def by (rule comprehension_Inr)
  have z: "zip d control_str = map (\<lambda>i. (d ! i, control_str ! i)) [0..<10]"
    by (rule nth_equalityI) (simp_all add: len control_str_def)
  have s: "sum_list products = weighted_sum d"
    unfolding products_def z by (simp add: weighted_sum_def comp_def control_str_def)
  have "1 \<le> 11 - weighted_sum d mod 11" "11 - weighted_sum d mod 11 \<le> 11"
    by presburger+
  from remap_checksum[OF this] show ?thesis
    unfolding get_checksum_def c by (simp add: s spec_ccc_checksum_def Let_def)
qed

section \<open>What a match says about the input\<close>

text \<open>
  A match of either pattern decomposes the input into its groups, the separators and
  at most one line feed at the end.
\<close>

lemma opt_class_sound:
  "opt_class cls s = (x, r) \<Longrightarrow> s = x @ r \<and> (x = [] \<or> (\<exists>c\<in>set cls. x = [c]))"
  by (auto simp: opt_class_def split: list.splits if_splits)

lemma digits1_sound:
  assumes "digits1 s = Some (n, r)"
  shows "s = n @ r \<and> n \<noteq> [] \<and> list_all isdigit n"
proof -
  have n: "n = takeWhile isdigit s" "r = dropWhile isdigit s" "n \<noteq> []"
    using assms by (auto simp: digits1_def split: if_splits)
  have "list_all isdigit (takeWhile isdigit s)"
    by (auto simp: list_all_iff dest: set_takeWhileD)
  then show ?thesis
    using n by simp
qed

lemma digitsN_sound:
  "digitsN k s = Some (x, r) \<Longrightarrow> s = x @ r \<and> length x = k \<and> list_all isdigit x"
  by (auto simp: digitsN_def split: if_splits)

lemma re_match_identity_sound:
  assumes "re_match_identity P S v = Some (l1, n, l2)"
  shows "(\<exists>e. v = l1 @ n @ l2 @ e \<and> (e = [] \<or> e = [CHR 0x0A]))
         \<and> (l1 = [] \<or> (\<exists>c\<in>set P. l1 = [c])) \<and> n \<noteq> [] \<and> list_all isdigit n
         \<and> (l2 = [] \<or> (\<exists>c\<in>set S. l2 = [c]))"
proof -
  obtain r1 where a: "opt_class P v = (l1, r1)"
    using assms by (auto simp: re_match_identity_def split: prod.splits option.splits if_splits)
  obtain r2 where b: "digits1 r1 = Some (n, r2)"
    using assms a by (auto simp: re_match_identity_def split: prod.splits option.splits if_splits)
  obtain r3 where c: "opt_class S r2 = (l2, r3)" and d: "at_end r3"
    using assms a b by (auto simp: re_match_identity_def split: prod.splits option.splits if_splits)
  from opt_class_sound[OF a] digits1_sound[OF b] opt_class_sound[OF c] d
  show ?thesis
    by (auto simp: at_end_def)
qed

text \<open>
  For classes without digits, and without the line feed in the second one, the model
  of the identity pattern succeeds exactly on the strings of the pattern's language,
  with the groups the decomposition names.
\<close>

lemma re_match_identity_iff:
  assumes P: "\<forall>c\<in>set P. \<not> isdigit c" and S: "\<forall>c\<in>set S. \<not> isdigit c"
    and nl: "CHR 0x0A \<notin> set S"
  shows "re_match_identity P S v = Some (l1, n, l2)
   \<longleftrightarrow>
   (v = l1 @ n @ l2 \<or> v = l1 @ n @ l2 @ [CHR 0x0A])
   \<and> (l1 = [] \<or> (\<exists>c\<in>set P. l1 = [c]))
   \<and> n \<noteq> [] \<and> list_all isdigit n
   \<and> (l2 = [] \<or> (\<exists>c\<in>set S. l2 = [c]))"
  (is "?m = Some (l1, n, l2) \<longleftrightarrow> ?shape")
proof
  assume "?m = Some (l1, n, l2)"
  from re_match_identity_sound[OF this] show ?shape
    by auto
next
  assume s: ?shape
  then obtain e where v: "v = l1 @ n @ l2 @ e"
    and e: "e = [] \<or> (e = [CHR 0x0A] \<and> CHR 0x0A \<notin> set S)"
    using nl by auto
  show "?m = Some (l1, n, l2)"
    unfolding v using s e P S
    by (intro re_match_identity_shape) blast+
qed

lemma re_match_ccc_sound:
  assumes "re_match_ccc v = Some (entity, office, checksum, account)"
  shows "\<exists>s1 s2 s3 e. v = entity @ s1 @ office @ s2 @ checksum @ s3 @ account @ e
           \<and> set s1 \<subseteq> {CHR '' '', CHR ''-''} \<and> set s2 \<subseteq> {CHR '' '', CHR ''-''}
           \<and> set s3 \<subseteq> {CHR '' '', CHR ''-''} \<and> (e = [] \<or> e = [CHR 0x0A])
           \<and> length entity = 4 \<and> length office = 4 \<and> length checksum = 2 \<and> length account = 10
           \<and> list_all isdigit (entity @ office @ checksum @ account)"
proof -
  obtain r1 where a: "digitsN 4 v = Some (entity, r1)"
    using assms by (auto simp: re_match_ccc_def split: prod.splits option.splits if_splits)
  obtain s1 q1 where o1: "opt_class '' -'' r1 = (s1, q1)"
    by (cases "opt_class '' -'' r1")
  obtain r2 where b: "digitsN 4 q1 = Some (office, r2)"
    using assms a o1 by (auto simp: re_match_ccc_def split: prod.splits option.splits if_splits)
  obtain s2 q2 where o2: "opt_class '' -'' r2 = (s2, q2)"
    by (cases "opt_class '' -'' r2")
  obtain r3 where c: "digitsN 2 q2 = Some (checksum, r3)"
    using assms a o1 b o2 by (auto simp: re_match_ccc_def split: prod.splits option.splits if_splits)
  obtain s3 q3 where o3: "opt_class '' -'' r3 = (s3, q3)"
    by (cases "opt_class '' -'' r3")
  obtain r4 where d: "digitsN 10 q3 = Some (account, r4)" and e: "at_end r4"
    using assms a o1 b o2 c o3
    by (auto simp: re_match_ccc_def split: prod.splits option.splits if_splits)
  have sep: "\<And>x. (x = [] \<or> (\<exists>c\<in>set '' -''. x = [c])) \<Longrightarrow> set x \<subseteq> {CHR '' '', CHR ''-''}"
    by auto
  from digitsN_sound[OF a] opt_class_sound[OF o1] digitsN_sound[OF b] opt_class_sound[OF o2]
    digitsN_sound[OF c] opt_class_sound[OF o3] digitsN_sound[OF d] e
  have "v = entity @ s1 @ office @ s2 @ checksum @ s3 @ account @ r4"
    and "set s1 \<subseteq> {CHR '' '', CHR ''-''}" "set s2 \<subseteq> {CHR '' '', CHR ''-''}"
      "set s3 \<subseteq> {CHR '' '', CHR ''-''}" "r4 = [] \<or> r4 = [CHR 0x0A]"
    and "length entity = 4 \<and> length office = 4 \<and> length checksum = 2 \<and> length account = 10"
    and "list_all isdigit (entity @ office @ checksum @ account)"
    using sep by (auto simp: at_end_def)
  then show ?thesis
    by blast
qed

lemma isdigit_not_separator: "isdigit c \<Longrightarrow> c \<noteq> CHR '' '' \<and> c \<noteq> CHR ''-'' \<and> c \<noteq> CHR 0x0A"
  by (auto simp: isdigit_def)

lemma filter_digits:
  "list_all isdigit s \<Longrightarrow> filter (\<lambda>c. c \<noteq> CHR '' '' \<and> c \<noteq> CHR ''-'') s = s"
  using isdigit_not_separator by (induction s) auto

lemma filter_separators:
  "set s \<subseteq> {CHR '' '', CHR ''-''} \<Longrightarrow> filter (\<lambda>c. c \<noteq> CHR '' '' \<and> c \<noteq> CHR ''-'') s = []"
  by (induction s) auto

section \<open>The results of the validator\<close>

text \<open>On an input of at most 4301 characters the validator returns or raises one of its
  four \<open>ValidationError\<close>s: no index fails, and no number passed to \<^verbatim>\<open>int\<close> is longer than
  4300 digits.\<close>

lemma call_total:
  assumes len: "length v \<le> 4301"
  shows "ESIdentityCardNumberValidator_call (ESIdentityCardNumberValidator_init flag) v \<in>
     {Inr (), Inl (ValidationError Invalid), Inl (ValidationError Invalid_nif),
      Inl (ValidationError Invalid_nie), Inl (ValidationError Invalid_cif)}"
proof (cases "re_match_identity (''ABCDEFGHJKLMNPQS'' @ ''XYZ'')
                (''TRWAGMYFPDXBNJZSQVHLCKE'' @ ''JABCDEFGHI'') v")
  case None
  then show ?thesis
    by (simp add: ESIdentityCardNumberValidator_call_def ESIdentityCardNumberValidator_init_def)
next
  case (Some g)
  then obtain l1 n l2 where m: "re_match_identity (''ABCDEFGHJKLMNPQS'' @ ''XYZ'')
                (''TRWAGMYFPDXBNJZSQVHLCKE'' @ ''JABCDEFGHI'') v = Some (l1, n, l2)"
    by (cases g) auto
  from re_match_identity_sound[OF m]
  have l1: "l1 = [] \<or> (\<exists>c\<in>set (''ABCDEFGHJKLMNPQS'' @ ''XYZ''). l1 = [c])"
    and n: "n \<noteq> []" "list_all isdigit n"
    and v: "\<exists>e. v = l1 @ n @ l2 @ e"
    by blast+
  from v len have total: "length l1 + length n + length l2 \<le> 4301"
    by auto
  show ?thesis
  proof (cases "l1 = [] \<and> l2 \<noteq> []")
    case True
    with total have "length n \<le> 4300"
      by (cases l2) auto
    with True m nif_get_checksum_digits[OF n, of flag] show ?thesis
      by (simp add: ESIdentityCardNumberValidator_call_def ESIdentityCardNumberValidator_init_def)
  next
    case not_nif: False
    show ?thesis
    proof (cases "py_in l1 ''XYZ'' \<and> l2 \<noteq> []")
      case True
      with not_nif l1 obtain c where c: "l1 = [c]"
        by auto
      with True have x: "c \<in> set ''XYZ''"
        by (simp only: py_in_single)
      have "length (nie_prefix_digit c # n) \<le> 4300"
        using total c True by (cases l2) auto
      with n have d: "nie_prefix_digit c # n \<noteq> []" "list_all isdigit (nie_prefix_digit c # n)"
        "length (nie_prefix_digit c # n) \<le> 4300"
        by (simp_all add: nie_prefix_digit_isdigit)
      have i: "py_in [c] ''XYZ''"
        using x by (simp only: py_in_single)
      show ?thesis
        using m c True i nif_get_checksum_digits[OF d, of flag] nie_replace[OF x]
        by (simp add: ESIdentityCardNumberValidator_call_def ESIdentityCardNumberValidator_init_def)
    next
      case not_nie: False
      show ?thesis
      proof (cases "\<not> flag \<and> py_in l1 ''ABCDEFGHJKLMNPQS'' \<and> length n \<in> set [7, 8]")
        case True
        have lastd: "isdigit (last n)"
          using n by (simp add: list_all_iff)
        have g: "py_getitem n (- 1) = Inr (last n)"
          using n(1) by (rule py_getitem_last)
        have i: "py_int [last n] = Inr (digit_value (last n))"
          using lastd by (rule py_int_digit)
        have "list_all isdigit (butlast n)"
          using n(2) by (auto simp: list_all_iff dest: in_set_butlastD)
        then have c1: "cif_get_checksum (butlast n) = Inr (spec_cif_checksum (butlast n))"
          by (rule cif_get_checksum_digits)
        have c2: "cif_get_checksum n = Inr (spec_cif_checksum n)"
          using n(2) by (rule cif_get_checksum_digits)
        show ?thesis
        proof (cases "l2 = []")
          case no_letter: True
          show ?thesis
            unfolding ESIdentityCardNumberValidator_call_def
            using m no_letter True
            by (simp add: ESIdentityCardNumberValidator_init_def g i c1 c2 cif_control_getitem
                  del: py_in.simps)
        next
          case letter: False
          with not_nif not_nie have "l1 \<noteq> []" "\<not> py_in l1 ''XYZ''"
            by simp_all
          then show ?thesis
            unfolding ESIdentityCardNumberValidator_call_def
            using m letter True
            by (simp add: ESIdentityCardNumberValidator_init_def g i c1 c2 cif_control_getitem
                  del: py_in.simps)
        qed
      next
        case not_cif: False
        show ?thesis
        proof (cases "l2 = []")
          case no_letter: True
          show ?thesis
            unfolding ESIdentityCardNumberValidator_call_def
            using m no_letter not_cif
            by (auto simp add: ESIdentityCardNumberValidator_init_def simp del: py_in.simps)
        next
          case letter: False
          with not_nif not_nie have "l1 \<noteq> []" "\<not> py_in l1 ''XYZ''"
            by simp_all
          then show ?thesis
            unfolding ESIdentityCardNumberValidator_call_def
            using m letter not_cif
            by (auto simp add: ESIdentityCardNumberValidator_init_def simp del: py_in.simps)
        qed
      qed
    qed
  qed
qed

text \<open>
  \<^verbatim>\<open>only_nif\<close> is read in the CIF branch only: an input that matches with a final letter
  and with no prefix or a NIE prefix gets the same result under both settings.
\<close>

lemma nif_get_checksum_flag:
  "nif_get_checksum (ESIdentityCardNumberValidator_init True) d
   = nif_get_checksum (ESIdentityCardNumberValidator_init False) d"
  by (simp add: nif_get_checksum_def ESIdentityCardNumberValidator_init_def split: sum.splits)

lemma only_nif_same_on_nif_nie:
  assumes "re_match_identity (''ABCDEFGHJKLMNPQS'' @ ''XYZ'')
             (''TRWAGMYFPDXBNJZSQVHLCKE'' @ ''JABCDEFGHI'') v = Some (l1, n, l2)"
    and "l2 \<noteq> []" and "l1 = [] \<or> py_in l1 ''XYZ''"
  shows "ESIdentityCardNumberValidator_call (ESIdentityCardNumberValidator_init True) v
         = ESIdentityCardNumberValidator_call (ESIdentityCardNumberValidator_init False) v"
  using assms nif_get_checksum_flag
  unfolding ESIdentityCardNumberValidator_call_def
  by (auto simp add: ESIdentityCardNumberValidator_init_def simp del: py_in.simps)

text \<open>
  Every input that is not reported as \<^verbatim>\<open>invalid\<close> has the shape prefix, digits, suffix,
  up to one line feed at the end; and an input with a CIF type letter whose digit count
  is neither 7 nor 8 is reported as \<^verbatim>\<open>invalid\<close>.
\<close>

lemma no_match_invalid:
  assumes "ESIdentityCardNumberValidator_call (ESIdentityCardNumberValidator_init flag) v
            \<noteq> Inl (ValidationError Invalid)"
  shows "\<exists>l1 n l2 e. v = l1 @ n @ l2 @ e \<and> (e = [] \<or> e = [CHR 0x0A])
         \<and> (l1 = [] \<or> (\<exists>c\<in>set (''ABCDEFGHJKLMNPQS'' @ ''XYZ''). l1 = [c])) \<and> n \<noteq> []
         \<and> list_all isdigit n
         \<and> (l2 = [] \<or> (\<exists>c\<in>set (''TRWAGMYFPDXBNJZSQVHLCKE'' @ ''JABCDEFGHI''). l2 = [c]))"
proof -
  obtain l1 n l2 where "re_match_identity (''ABCDEFGHJKLMNPQS'' @ ''XYZ'')
             (''TRWAGMYFPDXBNJZSQVHLCKE'' @ ''JABCDEFGHI'') v = Some (l1, n, l2)"
    using assms
    by (cases "re_match_identity (''ABCDEFGHJKLMNPQS'' @ ''XYZ'')
             (''TRWAGMYFPDXBNJZSQVHLCKE'' @ ''JABCDEFGHI'') v")
       (auto simp: ESIdentityCardNumberValidator_call_def ESIdentityCardNumberValidator_init_def)
  from re_match_identity_sound[OF this] show ?thesis
    by blast
qed

lemma cif_wrong_length_invalid:
  assumes t: "t \<in> set ''ABCDEFGHJKLMNPQS''"
    and ds: "ds \<noteq> []" "list_all isdigit ds"
    and len: "length ds \<noteq> 7" "length ds \<noteq> 8"
    and l2: "l2 = [] \<or> (\<exists>c\<in>set (''TRWAGMYFPDXBNJZSQVHLCKE'' @ ''JABCDEFGHI''). l2 = [c])"
    and e: "e = [] \<or> e = [CHR 0x0A]"
  shows "ESIdentityCardNumberValidator_call (ESIdentityCardNumberValidator_init flag) (t # ds @ l2 @ e)
         = Inl (ValidationError Invalid)"
proof -
  have tP: "t \<in> set (''ABCDEFGHJKLMNPQS'' @ ''XYZ'')"
    unfolding set_append using t by (rule UnI1)
  have m: "re_match_identity (''ABCDEFGHJKLMNPQS'' @ ''XYZ'')
      (''TRWAGMYFPDXBNJZSQVHLCKE'' @ ''JABCDEFGHI'') ([t] @ ds @ l2 @ e) = Some ([t], ds, l2)"
    using tP ds l2 e suffix_class_no_newline
    by (intro re_match_identity_shape prefix_class_letters suffix_class_letters) auto
  have nie: "\<not> py_in [t] ''XYZ''"
    using cif_type_not_nie[OF t] by (simp only: py_in_single simp_thms)
  show ?thesis
    unfolding ESIdentityCardNumberValidator_call_def
    using m nie len
    by (simp add: ESIdentityCardNumberValidator_init_def del: py_in.simps)
qed

lemma line_feed_input_has_no_shape:
  "\<not> (\<exists>l1 n l2. ''0T\<newline>'' = l1 @ n @ l2
        \<and> (l1 = [] \<or> (\<exists>c\<in>set (''ABCDEFGHJKLMNPQS'' @ ''XYZ''). l1 = [c]))
        \<and> n \<noteq> [] \<and> list_all isdigit n
        \<and> (l2 = [] \<or> (\<exists>c\<in>set (''TRWAGMYFPDXBNJZSQVHLCKE'' @ ''JABCDEFGHI''). l2 = [c])))"
proof
  assume "\<exists>l1 n l2. ''0T\<newline>'' = l1 @ n @ l2
        \<and> (l1 = [] \<or> (\<exists>c\<in>set (''ABCDEFGHJKLMNPQS'' @ ''XYZ''). l1 = [c]))
        \<and> n \<noteq> [] \<and> list_all isdigit n
        \<and> (l2 = [] \<or> (\<exists>c\<in>set (''TRWAGMYFPDXBNJZSQVHLCKE'' @ ''JABCDEFGHI''). l2 = [c]))"
  then obtain l1 n l2 where eq: "''0T\<newline>'' = l1 @ n @ l2"
    and n: "n \<noteq> []" "list_all isdigit n"
    and l2: "l2 = [] \<or> (\<exists>c\<in>set (''TRWAGMYFPDXBNJZSQVHLCKE'' @ ''JABCDEFGHI''). l2 = [c])"
    by blast
  have "last (l1 @ n @ l2) = CHR 0x0A"
    unfolding eq[symmetric] by simp
  moreover have "last (l1 @ n @ l2) \<noteq> CHR 0x0A"
  proof (cases "l2 = []")
    case True
    then have "last (l1 @ n @ l2) = last n"
      using n(1) by simp
    moreover have "isdigit (last n)"
      using n by (simp add: list_all_iff)
    ultimately show ?thesis
      using isdigit_not_separator by auto
  next
    case False
    with l2 obtain c where "l2 = [c]" "c \<in> set (''TRWAGMYFPDXBNJZSQVHLCKE'' @ ''JABCDEFGHI'')"
      by blast
    then show ?thesis
      using suffix_class_no_newline by auto
  qed
  ultimately show False
    by contradiction
qed

text \<open>
  The empty string occurs in every string, so an input without prefix letter and
  without suffix letter passes the test \<^verbatim>\<open>letter1 in self.cif_types\<close>: 7 or 8 digits
  alone are checked as a CIF when \<^verbatim>\<open>only_nif\<close> is false.
\<close>

lemma digits_only_checked_as_cif:
  "ESIdentityCardNumberValidator_call (ESIdentityCardNumberValidator_init False) ''12345674'' = Inr ()
   \<and> ESIdentityCardNumberValidator_call (ESIdentityCardNumberValidator_init False) ''12345678''
       = Inl (ValidationError Invalid_cif)
   \<and> ESIdentityCardNumberValidator_call (ESIdentityCardNumberValidator_init True) ''12345674''
       = Inl (ValidationError Invalid)"
  by code_simp

section \<open>The length of the number\<close>

text \<open>
  The validator puts no bound on the digits of a NIF or NIE, and \<^verbatim>\<open>int\<close> has one. Up to
  4300 digits in the number passed to \<^verbatim>\<open>int\<close> the control letter decides; beyond, the
  validator and the field raise \<open>ValueError\<close>. For a NIE the digit of the prefix counts.
\<close>

lemma nif_accepted_upto_limit:
  assumes "D \<noteq> []" and "list_all isdigit D"
    and "L \<in> set (''TRWAGMYFPDXBNJZSQVHLCKE'' @ ''JABCDEFGHI'')"
    and "length D \<le> 4300"
  shows "ESIdentityCardNumberValidator_call (ESIdentityCardNumberValidator_init flag) (D @ [L]) =
           (if L = ''TRWAGMYFPDXBNJZSQVHLCKE'' ! nat (decimal D mod 23) then Inr ()
            else Inl (ValidationError Invalid_nif))
       \<and> ESIdentityCardNumberField_clean (ESIdentityCardNumberField_init flag req) (D @ [L]) =
           (if L = ''TRWAGMYFPDXBNJZSQVHLCKE'' ! nat (decimal D mod 23) then Inr (D @ [L])
            else Inl (ValidationError Invalid_nif))"
proof -
  have m: "re_match_identity (''ABCDEFGHJKLMNPQS'' @ ''XYZ'') (''TRWAGMYFPDXBNJZSQVHLCKE'' @ ''JABCDEFGHI'')
        ([] @ D @ [L] @ []) = Some ([], D, [L])"
    using assms(1-3) by (intro re_match_identity_shape prefix_class_letters suffix_class_letters) auto
  have v: "ESIdentityCardNumberValidator_call (ESIdentityCardNumberValidator_init b) (D @ [L]) =
           (if L = ''TRWAGMYFPDXBNJZSQVHLCKE'' ! nat (decimal D mod 23) then Inr ()
            else Inl (ValidationError Invalid_nif))" for b
    using m nif_get_checksum_digits[OF assms(1,2,4), of b]
    by (simp add: ESIdentityCardNumberValidator_call_def ESIdentityCardNumberValidator_init_def)
  have p: "set (D @ [L]) \<subseteq> plain_chars"
    using digits_plain[OF assms(2)] suffix_plain[OF assms(3)] by simp
  have "D @ [L] \<noteq> []" by simp
  from field_clean_plain[OF this p] v show ?thesis
    by simp
qed

lemma nie_accepted_upto_limit:
  assumes "p \<in> set ''XYZ''" and "D \<noteq> []" and "list_all isdigit D"
    and "L \<in> set (''TRWAGMYFPDXBNJZSQVHLCKE'' @ ''JABCDEFGHI'')"
    and "length D < 4300"
  shows "ESIdentityCardNumberValidator_call (ESIdentityCardNumberValidator_init flag) (p # D @ [L]) =
           (if L = ''TRWAGMYFPDXBNJZSQVHLCKE'' ! nat (decimal (nie_prefix_digit p # D) mod 23)
            then Inr () else Inl (ValidationError Invalid_nie))
       \<and> ESIdentityCardNumberField_clean (ESIdentityCardNumberField_init flag req) (p # D @ [L]) =
           (if L = ''TRWAGMYFPDXBNJZSQVHLCKE'' ! nat (decimal (nie_prefix_digit p # D) mod 23)
            then Inr (p # D @ [L]) else Inl (ValidationError Invalid_nie))"
proof -
  have m: "re_match_identity (''ABCDEFGHJKLMNPQS'' @ ''XYZ'') (''TRWAGMYFPDXBNJZSQVHLCKE'' @ ''JABCDEFGHI'')
        ([p] @ D @ [L] @ []) = Some ([p], D, [L])"
    using assms(1-4) by (intro re_match_identity_shape prefix_class_letters suffix_class_letters) auto
  have d: "nie_prefix_digit p # D \<noteq> []" "list_all isdigit (nie_prefix_digit p # D)"
    "length (nie_prefix_digit p # D) \<le> 4300"
    using assms(3,5) by (simp_all add: nie_prefix_digit_isdigit)
  have i: "py_in [p] ''XYZ''"
    using assms(1) by (simp only: py_in_single)
  have v: "ESIdentityCardNumberValidator_call (ESIdentityCardNumberValidator_init b) (p # D @ [L]) =
           (if L = ''TRWAGMYFPDXBNJZSQVHLCKE'' ! nat (decimal (nie_prefix_digit p # D) mod 23)
            then Inr () else Inl (ValidationError Invalid_nie))" for b
    using m nif_get_checksum_digits[OF d, of b] i nie_replace[OF assms(1)]
    by (simp add: ESIdentityCardNumberValidator_call_def ESIdentityCardNumberValidator_init_def)
  have "p \<in> set (''ABCDEFGHJKLMNPQS'' @ ''XYZ'')"
    using assms(1) by simp
  then have p: "set (p # D @ [L]) \<subseteq> plain_chars"
    using digits_plain[OF assms(3)] suffix_plain[OF assms(4)] prefix_plain[of p] by simp
  have "p # D @ [L] \<noteq> []" by simp
  from field_clean_plain[OF this p] v show ?thesis
    by simp
qed

lemma nif_nie_examples:
  "ESIdentityCardNumberValidator_call (ESIdentityCardNumberValidator_init True) ''12345678Z'' = Inr ()
   \<and> ESIdentityCardNumberValidator_call (ESIdentityCardNumberValidator_init True) ''12345678A''
       = Inl (ValidationError Invalid_nif)
   \<and> ESIdentityCardNumberValidator_call (ESIdentityCardNumberValidator_init False) ''X1234567L'' = Inr ()
   \<and> ESIdentityCardNumberValidator_call (ESIdentityCardNumberValidator_init False) ''Y1234567L''
       = Inl (ValidationError Invalid_nie)
   \<and> ESIdentityCardNumberField_clean (ESIdentityCardNumberField_init False True) ''X1234567L''
       = Inr ''X1234567L''"
  by code_simp

lemma nif_number_over_limit:
  assumes "list_all isdigit D" and "4300 < length D"
    and "L \<in> set (''TRWAGMYFPDXBNJZSQVHLCKE'' @ ''JABCDEFGHI'')"
  shows "ESIdentityCardNumberValidator_call (ESIdentityCardNumberValidator_init flag) (D @ [L])
           = Inl ValueError
       \<and> ESIdentityCardNumberField_clean (ESIdentityCardNumberField_init flag req) (D @ [L])
           = Inl ValueError"
proof -
  have ne: "D \<noteq> []"
    using assms(2) by auto
  have m: "re_match_identity (''ABCDEFGHJKLMNPQS'' @ ''XYZ'') (''TRWAGMYFPDXBNJZSQVHLCKE'' @ ''JABCDEFGHI'')
        ([] @ D @ [L] @ []) = Some ([], D, [L])"
    using ne assms(1,3)
    by (intro re_match_identity_shape prefix_class_letters suffix_class_letters) auto
  have v: "ESIdentityCardNumberValidator_call (ESIdentityCardNumberValidator_init b) (D @ [L])
           = Inl ValueError" for b
    using m nif_get_checksum_over_limit[OF assms(2), of "ESIdentityCardNumberValidator_init b"]
    by (simp add: ESIdentityCardNumberValidator_call_def ESIdentityCardNumberValidator_init_def)
  have p: "set (D @ [L]) \<subseteq> plain_chars"
    using digits_plain[OF assms(1)] suffix_plain[OF assms(3)] by simp
  have "D @ [L] \<noteq> []" by simp
  from field_clean_plain[OF this p] v show ?thesis
    by simp
qed

lemma nie_number_over_limit:
  assumes "p \<in> set ''XYZ''" and "list_all isdigit D" and "4300 \<le> length D"
    and "L \<in> set (''TRWAGMYFPDXBNJZSQVHLCKE'' @ ''JABCDEFGHI'')"
  shows "ESIdentityCardNumberValidator_call (ESIdentityCardNumberValidator_init flag) (p # D @ [L])
           = Inl ValueError
       \<and> ESIdentityCardNumberField_clean (ESIdentityCardNumberField_init flag req) (p # D @ [L])
           = Inl ValueError"
proof -
  have ne: "D \<noteq> []"
    using assms(3) by auto
  have m: "re_match_identity (''ABCDEFGHJKLMNPQS'' @ ''XYZ'') (''TRWAGMYFPDXBNJZSQVHLCKE'' @ ''JABCDEFGHI'')
        ([p] @ D @ [L] @ []) = Some ([p], D, [L])"
    using ne assms(1,2,4)
    by (intro re_match_identity_shape prefix_class_letters suffix_class_letters) auto
  have long: "4300 < length (nie_prefix_digit p # D)"
    using assms(3) by simp
  have i: "py_in [p] ''XYZ''"
    using assms(1) by (simp only: py_in_single)
  have v: "ESIdentityCardNumberValidator_call (ESIdentityCardNumberValidator_init b) (p # D @ [L])
           = Inl ValueError" for b
    using m nif_get_checksum_over_limit[OF long, of "ESIdentityCardNumberValidator_init b"] i
      nie_replace[OF assms(1)]
    by (simp add: ESIdentityCardNumberValidator_call_def ESIdentityCardNumberValidator_init_def)
  have "p \<in> set (''ABCDEFGHJKLMNPQS'' @ ''XYZ'')"
    using assms(1) by simp
  then have p: "set (p # D @ [L]) \<subseteq> plain_chars"
    using digits_plain[OF assms(2)] suffix_plain[OF assms(4)] prefix_plain[of p] by simp
  have "p # D @ [L] \<noteq> []" by simp
  from field_clean_plain[OF this p] v show ?thesis
    by simp
qed

text \<open>
  The lookups themselves never fail: the checksum of a digit string indexes the CIF
  alphabet, and any integer modulo 23 indexes the NIF alphabet. On an input of at most
  4301 characters the validator and the field end in a value or a validation error.
\<close>

lemma lookups_in_bounds_upto_limit:
  "(list_all isdigit number \<longrightarrow>
      (\<exists>k c. cif_get_checksum number = Inr k \<and> 0 \<le> k \<and> k \<le> 9 \<and>
             py_getitem ''JABCDEFGHI'' k = Inr c))
   \<and> (\<exists>c. py_getitem ''TRWAGMYFPDXBNJZSQVHLCKE'' (n mod 23) = Inr c)
   \<and> (length v \<le> 4301 \<longrightarrow>
       ESIdentityCardNumberValidator_call (ESIdentityCardNumberValidator_init flag) v \<in>
         {Inr (), Inl (ValidationError Invalid), Inl (ValidationError Invalid_nif),
          Inl (ValidationError Invalid_nie), Inl (ValidationError Invalid_cif)}
       \<and> ((\<exists>r. ESIdentityCardNumberField_clean (ESIdentityCardNumberField_init flag req) v = Inr r)
          \<or> (\<exists>m. ESIdentityCardNumberField_clean (ESIdentityCardNumberField_init flag req) v
                   = Inl (ValidationError m))))"
proof -
  have a: "\<exists>k c. cif_get_checksum number = Inr k \<and> 0 \<le> k \<and> k \<le> 9 \<and>
             py_getitem ''JABCDEFGHI'' k = Inr c" if "list_all isdigit number"
    using cif_get_checksum_digits[OF that] spec_cif_checksum_range[of number]
      cif_control_getitem[of number] by auto
  have "py_getitem ''TRWAGMYFPDXBNJZSQVHLCKE'' (n mod 23)
        = Inr (''TRWAGMYFPDXBNJZSQVHLCKE'' ! nat (n mod 23))"
    by (rule py_getitem_in_range) simp_all
  then have b: "\<exists>c. py_getitem ''TRWAGMYFPDXBNJZSQVHLCKE'' (n mod 23) = Inr c"
    by blast
  have c: "(\<exists>r. ESIdentityCardNumberField_clean (ESIdentityCardNumberField_init flag req) v = Inr r)
      \<or> (\<exists>m. ESIdentityCardNumberField_clean (ESIdentityCardNumberField_init flag req) v
               = Inl (ValidationError m))" if len: "length v \<le> 4301"
  proof -
    let ?w = "if v \<noteq> [] then normalize_value v else v"
    have "length (normalize_value v) \<le> length v"
      unfolding normalize_filter using length_filter_le[of _ "map upper_char v"] by simp
    with len have "length ?w \<le> 4301"
      by simp
    then have "ESIdentityCardNumberValidator_call (ESIdentityCardNumberValidator_init False) ?w \<in>
       {Inr (), Inl (ValidationError Invalid), Inl (ValidationError Invalid_nif),
        Inl (ValidationError Invalid_nie), Inl (ValidationError Invalid_cif)}"
      by (rule call_total)
    then show ?thesis
      unfolding ESIdentityCardNumberField_clean_def ESIdentityCardNumberField_init_def Field_clean_def
      by (cases "?w = []"; cases req) auto
  qed
  from a b c call_total[of v flag] show ?thesis
    by blast
qed

section \<open>The claims\<close>

text \<open>
  C1. The claim: every input made of one or more decimal digits \<open>D\<close> and one letter \<open>L\<close> of
  the control alphabets, with no prefix letter, is accepted exactly when \<open>L\<close> is the
  letter of \<^verbatim>\<open>TRWAGMYFPDXBNJZSQVHLCKE\<close> at index \<open>int(D) mod 23\<close>, and gets the NIF checksum
  error with any other letter. The validator does not bound the digits, and \<^verbatim>\<open>int\<close>
  refuses more than 4300 of them: on 4301 digits and a letter the validator, and the
  field with it, raises \<open>ValueError\<close>, which is neither result.
\<close>

theorem nif_long_number_value_error:
  "ESIdentityCardNumberValidator_call (ESIdentityCardNumberValidator_init False)
     (replicate 4301 (CHR ''1'') @ [CHR ''T'']) = Inl ValueError
   \<and> ESIdentityCardNumberField_clean (ESIdentityCardNumberField_init False True)
     (replicate 4301 (CHR ''1'') @ [CHR ''T'']) = Inl ValueError"
proof -
  have d: "list_all isdigit (replicate 4301 (CHR ''1''))"
    by (simp add: list_all_iff isdigit_def)
  have l: "4300 < length (replicate 4301 (CHR ''1''))"
    by simp
  have t: "CHR ''T'' \<in> set (''TRWAGMYFPDXBNJZSQVHLCKE'' @ ''JABCDEFGHI'')"
    by simp
  show ?thesis
    by (rule nif_number_over_limit[OF d l t])
qed

text \<open>
  C2. The claim: every input made of a prefix \<open>X\<close>, \<open>Y\<close> or \<open>Z\<close>, one or more digits and a
  letter of the control alphabets is accepted exactly when the letter is the NIF
  control letter of the digit of the prefix (\<open>X\<close> is 0, \<open>Y\<close> is 1, \<open>Z\<close> is 2) followed by
  the matched digits, and gets the NIE checksum error otherwise. With the digit of the
  prefix, 4300 matched digits make a number of 4301 digits, which \<^verbatim>\<open>int\<close> refuses: the
  validator, and the field with it, raises \<open>ValueError\<close>.
\<close>

theorem nie_long_number_value_error:
  "ESIdentityCardNumberValidator_call (ESIdentityCardNumberValidator_init False)
     (CHR ''X'' # replicate 4300 (CHR ''1'') @ [CHR ''T'']) = Inl ValueError
   \<and> ESIdentityCardNumberField_clean (ESIdentityCardNumberField_init False True)
     (CHR ''X'' # replicate 4300 (CHR ''1'') @ [CHR ''T'']) = Inl ValueError"
proof -
  have x: "CHR ''X'' \<in> set ''XYZ''"
    by simp
  have d: "list_all isdigit (replicate 4300 (CHR ''1''))"
    by (simp add: list_all_iff isdigit_def)
  have l: "4300 \<le> length (replicate 4300 (CHR ''1''))"
    by simp
  have t: "CHR ''T'' \<in> set (''TRWAGMYFPDXBNJZSQVHLCKE'' @ ''JABCDEFGHI'')"
    by simp
  show ?thesis
    by (rule nie_number_over_limit[OF x d l t])
qed

text \<open>
  C3. For every string of decimal digits \<open>number\<close>, \<^verbatim>\<open>cif_get_checksum\<close> returns
  \<open>(10 - ((odd_sum + even_sum) mod 10)) mod 10\<close>, where \<open>odd_sum\<close> adds the digits at the
  odd positions (counted from 0) as they are and \<open>even_sum\<close> adds, over the even positions,
  the digit sum of twice the digit. A digit 8 at an even position contributes
  \<open>1 + 6 = 7\<close>, the digits of 16.
\<close>

theorem cif_get_checksum_formula:
  "list_all isdigit number \<Longrightarrow>
     cif_get_checksum number = Inr ((10 - (odd_sum number + even_sum number) mod 10) mod 10)
     \<and> digits_of_double (CHR ''8'') = Inr 7 \<and> digit_sum (2 * 8) = 7"
proof -
  assume "list_all isdigit number"
  then have "cif_get_checksum number = Inr (spec_cif_checksum number)"
    by (rule cif_get_checksum_digits)
  moreover have "digits_of_double (CHR ''8'') = Inr 7"
    by (simp add: digits_of_double_def py_int_def int_max_str_digits_def decimal_def isdigit_def
          digit_value_def
          py_str_def str_nat.simps)
  moreover have "digit_sum (2 * 8) = 7"
    by (simp add: digit_sum.simps)
  ultimately show ?thesis
    by (simp add: spec_cif_checksum_def)
qed

theorem cif_get_checksum_formula_witness:
  "cif_get_checksum ''5881850'' = Inr 1 \<and> odd_sum ''5881850'' = 14 \<and> even_sum ''5881850'' = 15"
proof -
  have d: "list_all isdigit ''5881850''"
    by (simp add: isdigit_def)
  have o: "odd_sum ''5881850'' = 14"
    by (simp add: odd_sum_def digit_value_def)
  have e: "even_sum ''5881850'' = 15"
    by (simp add: even_sum_def digit_value_def digit_sum.simps)
  show ?thesis
    using cif_get_checksum_formula[OF d] by (simp add: o e)
qed

text \<open>
  C4. For an input made of a type letter of \<^verbatim>\<open>ABCDEFGHJKLMNPQS\<close> and 7 or 8 digits, with
  or without a letter of the control alphabets at the end, the check character is the
  final letter when there is one and the last digit otherwise; the checksum \<open>k\<close> is
  computed over the digits before the check character. The input is accepted exactly
  when the check character is the digit \<open>k\<close> or the letter of \<^verbatim>\<open>JABCDEFGHI\<close> at index \<open>k\<close>;
  every other check character gives the CIF checksum error.
\<close>

theorem cif_check_character:
  assumes t: "t \<in> set ''ABCDEFGHJKLMNPQS''"
    and ds: "list_all isdigit ds"
    and len: "length ds = 7 \<or> length ds = 8"
    and l: "l \<in> set (''TRWAGMYFPDXBNJZSQVHLCKE'' @ ''JABCDEFGHI'')"
  shows "(\<exists>k. cif_get_checksum (butlast ds) = Inr k \<and>
            ESIdentityCardNumberValidator_call (ESIdentityCardNumberValidator_init False) (t # ds) =
              (if last ds = digit_char k \<or> last ds = ''JABCDEFGHI'' ! nat k then Inr ()
               else Inl (ValidationError Invalid_cif)) \<and>
            ESIdentityCardNumberField_clean (ESIdentityCardNumberField_init False req) (t # ds) =
              (if last ds = digit_char k \<or> last ds = ''JABCDEFGHI'' ! nat k then Inr (t # ds)
               else Inl (ValidationError Invalid_cif)))
       \<and> (\<exists>k. cif_get_checksum ds = Inr k \<and>
            ESIdentityCardNumberValidator_call (ESIdentityCardNumberValidator_init False) (t # ds @ [l]) =
              (if l = digit_char k \<or> l = ''JABCDEFGHI'' ! nat k then Inr ()
               else Inl (ValidationError Invalid_cif)) \<and>
            ESIdentityCardNumberField_clean (ESIdentityCardNumberField_init False req) (t # ds @ [l]) =
              (if l = digit_char k \<or> l = ''JABCDEFGHI'' ! nat k then Inr (t # ds @ [l])
               else Inl (ValidationError Invalid_cif)))"
proof -
  let ?V = "ESIdentityCardNumberValidator_call (ESIdentityCardNumberValidator_init False)"
  let ?F = "ESIdentityCardNumberField_clean (ESIdentityCardNumberField_init False req)"
  have ne: "ds \<noteq> []"
    using len by auto
  have tP: "t \<in> set (''ABCDEFGHJKLMNPQS'' @ ''XYZ'')"
    unfolding set_append using t by (rule UnI1)
  have pt: "t \<in> plain_chars" and pl: "l \<in> plain_chars" and pd: "set ds \<subseteq> plain_chars"
    using prefix_plain[OF tP] suffix_plain[OF l] digits_plain[OF ds] by simp_all
  have lastd: "isdigit (last ds)"
    using ds ne by (simp add: list_all_iff)
  have notd: "\<not> isdigit l"
    using l suffix_class_letters by blast
  \<comment> \<open>without a trailing letter\<close>
  define k1 where "k1 = spec_cif_checksum (butlast ds)"
  have r1: "0 \<le> k1" "k1 \<le> 9"
    using spec_cif_checksum_range[of "butlast ds"] by (simp_all add: k1_def)
  have "list_all isdigit (butlast ds)"
    using ds by (auto simp: list_all_iff dest: in_set_butlastD)
  then have c1: "cif_get_checksum (butlast ds) = Inr k1"
    unfolding k1_def by (rule cif_get_checksum_digits)
  have m1: "re_match_identity (''ABCDEFGHJKLMNPQS'' @ ''XYZ'')
      (''TRWAGMYFPDXBNJZSQVHLCKE'' @ ''JABCDEFGHI'') ([t] @ ds @ [] @ []) = Some ([t], ds, [])"
    using tP ne ds by (intro re_match_identity_shape prefix_class_letters suffix_class_letters) auto
  have v1: "?V (t # ds) = (if last ds = digit_char k1 \<or> last ds = ''JABCDEFGHI'' ! nat k1
                           then Inr () else Inl (ValidationError Invalid_cif))"
    using call_cif_branch[OF m1 t len ds] digit_check_iff[OF lastd r1]
    by (simp add: k1_def)
  have f1: "?F (t # ds) = (case ?V (t # ds) of Inl e \<Rightarrow> Inl e | Inr u \<Rightarrow> Inr (t # ds))"
    using pt pd by (intro field_clean_plain) simp_all
  \<comment> \<open>with a trailing letter\<close>
  define k2 where "k2 = spec_cif_checksum ds"
  have r2: "0 \<le> k2" "k2 \<le> 9"
    using spec_cif_checksum_range[of ds] by (simp_all add: k2_def)
  have c2: "cif_get_checksum ds = Inr k2"
    unfolding k2_def using ds by (rule cif_get_checksum_digits)
  have m2: "re_match_identity (''ABCDEFGHJKLMNPQS'' @ ''XYZ'')
      (''TRWAGMYFPDXBNJZSQVHLCKE'' @ ''JABCDEFGHI'') ([t] @ ds @ [l] @ []) = Some ([t], ds, [l])"
    using tP ne ds l by (intro re_match_identity_shape prefix_class_letters suffix_class_letters) auto
  have v2: "?V (t # ds @ [l]) = (if l = digit_char k2 \<or> l = ''JABCDEFGHI'' ! nat k2
                           then Inr () else Inl (ValidationError Invalid_cif))"
    using call_cif_branch[OF m2 t len ds] letter_check_iff[OF notd r2]
    by (simp add: k2_def)
  have f2: "?F (t # ds @ [l]) = (case ?V (t # ds @ [l]) of Inl e \<Rightarrow> Inl e | Inr u \<Rightarrow> Inr (t # ds @ [l]))"
    using pt pd pl by (intro field_clean_plain) simp_all
  have a: "\<exists>k. cif_get_checksum (butlast ds) = Inr k \<and>
            ?V (t # ds) =
              (if last ds = digit_char k \<or> last ds = ''JABCDEFGHI'' ! nat k then Inr ()
               else Inl (ValidationError Invalid_cif)) \<and>
            ?F (t # ds) =
              (if last ds = digit_char k \<or> last ds = ''JABCDEFGHI'' ! nat k then Inr (t # ds)
               else Inl (ValidationError Invalid_cif))"
    by (rule exI[of _ k1]) (simp add: c1 f1 v1)
  have b: "\<exists>k. cif_get_checksum ds = Inr k \<and>
            ?V (t # ds @ [l]) =
              (if l = digit_char k \<or> l = ''JABCDEFGHI'' ! nat k then Inr ()
               else Inl (ValidationError Invalid_cif)) \<and>
            ?F (t # ds @ [l]) =
              (if l = digit_char k \<or> l = ''JABCDEFGHI'' ! nat k then Inr (t # ds @ [l])
               else Inl (ValidationError Invalid_cif))"
    by (rule exI[of _ k2]) (simp add: c2 f2 v2)
  from a b show ?thesis by (rule conjI)
qed

theorem cif_check_character_witness:
  "ESIdentityCardNumberValidator_call (ESIdentityCardNumberValidator_init False) ''A58818501'' = Inr ()
   \<and> ESIdentityCardNumberValidator_call (ESIdentityCardNumberValidator_init False) ''A58818501J'' = Inr ()
   \<and> ESIdentityCardNumberField_clean (ESIdentityCardNumberField_init False True) ''A58818501J''
       = Inr ''A58818501J''"
proof -
  have e1: "cif_get_checksum ''5881850'' = Inr 1" and e2: "cif_get_checksum ''58818501'' = Inr 0"
    by code_simp+
  have h: "CHR ''A'' \<in> set ''ABCDEFGHJKLMNPQS''" "list_all isdigit ''58818501''"
    "length ''58818501'' = 7 \<or> length ''58818501'' = 8"
    "CHR ''J'' \<in> set (''TRWAGMYFPDXBNJZSQVHLCKE'' @ ''JABCDEFGHI'')"
    by (simp_all add: isdigit_def)
  from cif_check_character[OF h, of True] show ?thesis
    by (auto simp: e1 e2 digit_char_def)
qed

text \<open>
  C5. For every segment of 10 digits, \<^verbatim>\<open>get_checksum\<close> is the numeral of 11 minus the
  weighted digit sum modulo 11, under the weights \<open>1, 2, 4, 8, 5, 10, 9, 7, 3, 6\<close>, with
  10 replaced by 1 and 11 by 0. For entity \<open>2100\<close>, office \<open>0418\<close> and account
  \<open>0200051332\<close> the two check digits are 4 and 5, and the account code
  \<open>21000418450200051332\<close> is accepted.
\<close>

theorem ccc_checksum_weighted:
  "(length d = 10 \<and> list_all isdigit d \<longrightarrow>
      get_checksum d =
        Inr (py_str (let r = 11 - weighted_sum d mod 11
                     in if r = 10 then 1 else if r = 11 then 0 else r)))
   \<and> get_checksum (''00'' @ ''2100'' @ ''0418'') = Inr ''4''
   \<and> get_checksum ''0200051332'' = Inr ''5''
   \<and> ESCCCField_clean req ''21000418450200051332'' = Inr ''21000418450200051332''"
proof -
  have a: "get_checksum d =
        Inr (py_str (let r = 11 - weighted_sum d mod 11
                     in if r = 10 then 1 else if r = 11 then 0 else r))"
    if "length d = 10" "list_all isdigit d"
    using get_checksum_segment[OF that] by (simp add: spec_ccc_checksum_def)
  have e1: "get_checksum (''00'' @ ''2100'' @ ''0418'') = Inr ''4''"
    and e2: "get_checksum ''0200051332'' = Inr ''5''"
    and m: "re_match_ccc ''21000418450200051332'' = Some (''2100'', ''0418'', ''45'', ''0200051332'')"
    by code_simp+
  have c: "ESCCCField_clean req ''21000418450200051332'' = Inr ''21000418450200051332''"
    using e1 e2 by (simp add: ESCCCField_clean_def Field_clean_def regex_validator_def m)
  from a e1 e2 c show ?thesis
    by blast
qed

theorem ccc_checksum_weighted_witness:
  "weighted_sum ''0200051332'' = 105 \<and> get_checksum ''0200051332'' = Inr (py_str 5)"
proof -
  have w: "weighted_sum ''0200051332'' = 105"
    by code_simp
  have "length ''0200051332'' = 10 \<and> list_all isdigit ''0200051332''"
    by (simp add: isdigit_def)
  with ccc_checksum_weighted[of "''0200051332''" True] show ?thesis
    by (simp add: w)
qed

text \<open>
  C6. The claim: with \<^verbatim>\<open>only_nif=True\<close> a well-formed CIF is reported as a disallowed
  kind, neither as malformed nor as a checksum result. The validator has the message
  \<^verbatim>\<open>invalid_only_nif\<close> for this and never raises it: the CIF \<open>A58818501\<close>, which is accepted
  under \<^verbatim>\<open>only_nif=False\<close>, is reported with \<^verbatim>\<open>invalid\<close>, the message of a malformed
  input. The form field built with \<^verbatim>\<open>only_nif=True\<close> accepts it, since it builds its
  validator without the flag.
\<close>

theorem only_nif_cif_reported_invalid:
  "ESIdentityCardNumberValidator_call (ESIdentityCardNumberValidator_init False) ''A58818501'' = Inr ()
   \<and> ESIdentityCardNumberValidator_call (ESIdentityCardNumberValidator_init True) ''A58818501''
       = Inl (ValidationError Invalid)
   \<and> ESIdentityCardNumberValidator_call (ESIdentityCardNumberValidator_init True) ''A5881850''
       = Inl (ValidationError Invalid)
   \<and> ESIdentityCardNumberField_clean (ESIdentityCardNumberField_init True True) ''A58818501''
       = Inr ''A58818501''"
  by code_simp

text \<open>
  C7. The claim: the bank account field returns the canonical form, the 20 digits
  without separators. It returns the input as it was given: with its separators.
\<close>

theorem ccc_clean_keeps_separators:
  "ESCCCField_clean True ''2100-0418-45-0200051332'' = Inr ''2100-0418-45-0200051332''
   \<and> ''2100-0418-45-0200051332'' \<noteq> ''21000418450200051332''"
  by code_simp

text \<open>
  C7, as amended. Whenever the bank account field accepts an input, the value it
  returns is the input itself. For a non-empty input without a line feed, removing the
  spaces and hyphens from the returned value gives the 20 digits of the four
  segments.
\<close>

theorem ccc_clean_returns_input:
  assumes "ESCCCField_clean req v = Inr r"
  shows "r = v \<and>
    (v \<noteq> [] \<and> CHR 0x0A \<notin> set v \<longrightarrow>
      (\<exists>entity office checksum account.
         re_match_ccc v = Some (entity, office, checksum, account) \<and>
         filter (\<lambda>c. c \<noteq> CHR '' '' \<and> c \<noteq> CHR ''-'') r = entity @ office @ checksum @ account \<and>
         length (entity @ office @ checksum @ account) = 20 \<and>
         list_all isdigit (entity @ office @ checksum @ account)))"
proof -
  have rv: "r = v"
    using assms
    by (auto simp: ESCCCField_clean_def Field_clean_def regex_validator_def
          split: if_splits sum.splits option.splits prod.splits)
  have "\<exists>entity office checksum account.
         re_match_ccc v = Some (entity, office, checksum, account) \<and>
         filter (\<lambda>c. c \<noteq> CHR '' '' \<and> c \<noteq> CHR ''-'') r = entity @ office @ checksum @ account \<and>
         length (entity @ office @ checksum @ account) = 20 \<and>
         list_all isdigit (entity @ office @ checksum @ account)"
    if ne: "v \<noteq> []" and nl: "CHR 0x0A \<notin> set v"
  proof -
    obtain entity office checksum account
      where m: "re_match_ccc v = Some (entity, office, checksum, account)"
      using assms ne
      by (auto simp: ESCCCField_clean_def Field_clean_def regex_validator_def
            split: if_splits sum.splits option.splits prod.splits)
    from re_match_ccc_sound[OF m] obtain s1 s2 s3 e where
      v: "v = entity @ s1 @ office @ s2 @ checksum @ s3 @ account @ e"
      and s: "set s1 \<subseteq> {CHR '' '', CHR ''-''}" "set s2 \<subseteq> {CHR '' '', CHR ''-''}"
        "set s3 \<subseteq> {CHR '' '', CHR ''-''}"
      and e: "e = [] \<or> e = [CHR 0x0A]"
      and len: "length entity = 4" "length office = 4" "length checksum = 2" "length account = 10"
      and d: "list_all isdigit (entity @ office @ checksum @ account)"
      by blast
    have e0: "e = []"
      using e nl v by auto
    have d4: "list_all isdigit entity" "list_all isdigit office" "list_all isdigit checksum"
      "list_all isdigit account"
      using d by simp_all
    have "filter (\<lambda>c. c \<noteq> CHR '' '' \<and> c \<noteq> CHR ''-'') v = entity @ office @ checksum @ account"
      unfolding v e0 by (simp add: filter_digits[OF d4(1)] filter_digits[OF d4(2)]
          filter_digits[OF d4(3)] filter_digits[OF d4(4)] filter_separators[OF s(1)]
          filter_separators[OF s(2)] filter_separators[OF s(3)])
    then show ?thesis
      using m d len rv by auto
  qed
  with rv show ?thesis
    by blast
qed

theorem ccc_clean_returns_input_witness:
  "ESCCCField_clean True ''2100 0418-45 0200051332'' = Inr ''2100 0418-45 0200051332''
   \<and> (\<exists>entity office checksum account.
         re_match_ccc ''2100 0418-45 0200051332'' = Some (entity, office, checksum, account) \<and>
         filter (\<lambda>c. c \<noteq> CHR '' '' \<and> c \<noteq> CHR ''-'') ''2100 0418-45 0200051332''
           = entity @ office @ checksum @ account \<and>
         length (entity @ office @ checksum @ account) = 20 \<and>
         list_all isdigit (entity @ office @ checksum @ account))"
proof -
  have h: "ESCCCField_clean True ''2100 0418-45 0200051332'' = Inr ''2100 0418-45 0200051332''"
    by code_simp
  from ccc_clean_returns_input[OF h] h show ?thesis
    by simp
qed

text \<open>
  C8. The claim: an input that is not an optional prefix letter, one or more digits and
  an optional suffix letter is reported as malformed and never gets a checksum
  result. The pattern ends in \<^verbatim>\<open>$\<close>, which also matches before a final line feed: the
  input \<open>0T\<close> followed by a line feed has no such shape, and the validator accepts it;
  with the letter \<open>R\<close> it reports the NIF checksum error.
\<close>

theorem trailing_line_feed_accepted:
  "ESIdentityCardNumberValidator_call (ESIdentityCardNumberValidator_init False) ''0T\<newline>'' = Inr ()
   \<and> ESIdentityCardNumberValidator_call (ESIdentityCardNumberValidator_init False) ''0R\<newline>''
       = Inl (ValidationError Invalid_nif)
   \<and> \<not> (\<exists>l1 n l2. ''0T\<newline>'' = l1 @ n @ l2
        \<and> (l1 = [] \<or> (\<exists>c\<in>set (''ABCDEFGHJKLMNPQS'' @ ''XYZ''). l1 = [c]))
        \<and> n \<noteq> [] \<and> list_all isdigit n
        \<and> (l2 = [] \<or> (\<exists>c\<in>set (''TRWAGMYFPDXBNJZSQVHLCKE'' @ ''JABCDEFGHI''). l2 = [c])))"
proof -
  have "ESIdentityCardNumberValidator_call (ESIdentityCardNumberValidator_init False) ''0T\<newline>'' = Inr ()"
    and "ESIdentityCardNumberValidator_call (ESIdentityCardNumberValidator_init False) ''0R\<newline>''
       = Inl (ValidationError Invalid_nif)"
    by code_simp+
  with line_feed_input_has_no_shape show ?thesis
    by (intro conjI)
qed

text \<open>
  C9. Normalising twice is normalising once. Spaces and hyphens put between the
  prefix, the digits and the suffix of an identifier do not change what the
  normalisation gives, nor the result of the identity number field.
\<close>

theorem normalize_idempotent_separators_ignored:
  "normalize_value (normalize_value s) = normalize_value s \<and>
   (set sep1 \<subseteq> {CHR '' '', CHR ''-''} \<and> set sep2 \<subseteq> {CHR '' '', CHR ''-''} \<longrightarrow>
      normalize_value (p @ sep1 @ ds @ sep2 @ sfx) = normalize_value (p @ ds @ sfx) \<and>
      ESIdentityCardNumberField_clean self (p @ sep1 @ ds @ sep2 @ sfx)
        = ESIdentityCardNumberField_clean self (p @ ds @ sfx))"
proof -
  have "normalize_value (p @ sep1 @ ds @ sep2 @ sfx) = normalize_value (p @ ds @ sfx) \<and>
      ESIdentityCardNumberField_clean self (p @ sep1 @ ds @ sep2 @ sfx)
        = ESIdentityCardNumberField_clean self (p @ ds @ sfx)"
    if s: "set sep1 \<subseteq> {CHR '' '', CHR ''-''}" "set sep2 \<subseteq> {CHR '' '', CHR ''-''}"
  proof -
    have n: "normalize_value (p @ sep1 @ ds @ sep2 @ sfx) = normalize_value (p @ ds @ sfx)"
      by (simp add: normalize_append normalize_separators[OF s(1)] normalize_separators[OF s(2)])
    have e: "normalize_value [] = []"
      by (simp add: normalize_filter)
    have "(if p @ sep1 @ ds @ sep2 @ sfx \<noteq> [] then normalize_value (p @ sep1 @ ds @ sep2 @ sfx)
           else p @ sep1 @ ds @ sep2 @ sfx)
        = (if p @ ds @ sfx \<noteq> [] then normalize_value (p @ ds @ sfx) else p @ ds @ sfx)"
      using n e by (cases "p @ ds @ sfx = []") auto
    then show ?thesis
      using n unfolding ESIdentityCardNumberField_clean_def by simp
  qed
  then show ?thesis
    using normalize_idem by blast
qed

theorem normalize_idempotent_separators_ignored_witness:
  "normalize_value (normalize_value ''x 1-l'') = normalize_value ''x 1-l''
   \<and> normalize_value ''x -1234567- l'' = normalize_value ''x1234567l''
   \<and> ESIdentityCardNumberField_clean (ESIdentityCardNumberField_init False True) ''x -1234567- l''
       = ESIdentityCardNumberField_clean (ESIdentityCardNumberField_init False True) ''x1234567l''
   \<and> ESIdentityCardNumberField_clean (ESIdentityCardNumberField_init False True) ''x1234567l''
       = Inr ''X1234567L''"
proof -
  have "ESIdentityCardNumberField_clean (ESIdentityCardNumberField_init False True) ''x1234567l''
       = Inr ''X1234567L''"
    by code_simp
  with normalize_idempotent_separators_ignored[of "''x 1-l''" "'' -''" "''- ''" "''x''"
      "''1234567''" "''l''" "ESIdentityCardNumberField_init False True"]
  show ?thesis
    by simp
qed

text \<open>
  C10. The claim: every lookup in an alphabet is within its bounds, hence validation
  never fails outside its declared error results. The lookups are within bounds, but
  the conversion before the NIF lookup is not total: on 4301 digits and a letter, and
  on a NIE prefix with 4300 digits and a letter, the validator raises \<open>ValueError\<close>,
  which is none of its validation errors.
\<close>

theorem validator_raises_value_error:
  "ESIdentityCardNumberValidator_call (ESIdentityCardNumberValidator_init True)
     (replicate 4301 (CHR ''9'') @ [CHR ''E'']) = Inl ValueError
   \<and> ESIdentityCardNumberValidator_call (ESIdentityCardNumberValidator_init True)
     (CHR ''Z'' # replicate 4300 (CHR ''9'') @ [CHR ''E'']) = Inl ValueError
   \<and> Inl ValueError \<notin>
       {Inr (), Inl (ValidationError Invalid), Inl (ValidationError Invalid_nif),
        Inl (ValidationError Invalid_nie), Inl (ValidationError Invalid_cif)}"
proof -
  have z: "CHR ''Z'' \<in> set ''XYZ''"
    by simp
  have d: "list_all isdigit (replicate 4301 (CHR ''9''))"
    "list_all isdigit (replicate 4300 (CHR ''9''))"
    by (simp_all add: list_all_iff isdigit_def)
  have l: "4300 < length (replicate 4301 (CHR ''9''))" "4300 \<le> length (replicate 4300 (CHR ''9''))"
    by simp_all
  have e: "CHR ''E'' \<in> set (''TRWAGMYFPDXBNJZSQVHLCKE'' @ ''JABCDEFGHI'')"
    by simp
  from nif_number_over_limit[OF d(1) l(1) e, of True True]
    nie_number_over_limit[OF z d(2) l(2) e, of True True]
  show ?thesis
    by simp
qed

end
